theory Spec2Isabelle
  imports Complex_Main
begin

section \<open>Rate limiter (lib/panasonic/RateLimiter.ts)\<close>

text \<open>
  JavaScript numbers that the source only uses as counts, milliseconds or seconds are
  modelled as \<open>int\<close>; an optional property (\<open>x?: T\<close>, \<open>undefined\<close>) is an \<open>option\<close>.
  The limiter's queue holds the submitted operations; the promise plumbing
  (\<open>resolve\<close>/\<open>reject\<close>) is the caller's and is not part of the limiter's state.
\<close>

record RateLimiterOptions =
  opt_maxConcurrent :: "int option"
  opt_minInterval :: "int option"
  opt_maxQueueSize :: "int option"

record 'op RateLimiter =
  maxConcurrent :: int
  minInterval :: int
  maxQueueSize :: "int option"
  queue :: "'op list"
  activeCount :: int
  lastStart :: int

text \<open>The constructor: \<open>Math.max(1, options.maxConcurrent ?? 2)\<close> and so on.\<close>

definition newRateLimiter :: "RateLimiterOptions \<Rightarrow> 'op RateLimiter" where
  "newRateLimiter options =
     \<lparr> maxConcurrent = max 1 (case opt_maxConcurrent options of None \<Rightarrow> 2 | Some n \<Rightarrow> n),
       minInterval = max 0 (case opt_minInterval options of None \<Rightarrow> 200 | Some n \<Rightarrow> n),
       maxQueueSize = opt_maxQueueSize options,
       queue = [],
       activeCount = 0,
       lastStart = 0 \<rparr>"

text \<open>
  What one call of \<open>process()\<close> did: nothing (\<open>Idle\<close>: empty queue or no free slot),
  armed \<open>setTimeout(() => this.process(), wait)\<close>, or shifted the head of the queue and
  started it. The call is one synchronous step, so its two reads of \<open>Date.now()\<close> are
  the one value \<open>now\<close>.
\<close>

datatype 'op process_result = Idle | StartTimer int | Started 'op

definition process :: "'op RateLimiter \<Rightarrow> int \<Rightarrow> 'op RateLimiter \<times> 'op process_result" where
  "process rl now =
     (if queue rl = [] then (rl, Idle)
      else if maxConcurrent rl \<le> activeCount rl then (rl, Idle)
      else
        let wait = max 0 (minInterval rl - (now - lastStart rl)) in
        if 0 < wait then (rl, StartTimer wait)
        else
          (case queue rl of
             [] \<Rightarrow> (rl, Idle)
           | item # rest \<Rightarrow>
               (rl\<lparr>queue := rest, activeCount := activeCount rl + 1, lastStart := now\<rparr>,
                Started item)))"

text \<open>
  \<open>schedule(fn)\<close>: the guard \<open>this.maxQueueSize && this.queue.length >= this.maxQueueSize\<close>
  is JavaScript truthiness, so \<open>undefined\<close> and \<open>0\<close> both skip the check. Otherwise the
  operation is pushed and \<open>process()\<close> runs at once.
\<close>

datatype 'op schedule_result = QueueFull | Enqueued "'op process_result"

definition queueFull :: "'op RateLimiter \<Rightarrow> bool" where
  "queueFull rl =
     (case maxQueueSize rl of
        None \<Rightarrow> False
      | Some m \<Rightarrow> m \<noteq> 0 \<and> m \<le> int (length (queue rl)))"

definition schedule :: "'op RateLimiter \<Rightarrow> int \<Rightarrow> 'op \<Rightarrow> 'op RateLimiter \<times> 'op schedule_result" where
  "schedule rl now fn =
     (if queueFull rl then (rl, QueueFull)
      else
        (case process (rl\<lparr>queue := queue rl @ [fn]\<rparr>) now of
           (rl', r) \<Rightarrow> (rl', Enqueued r)))"

text \<open>The \<open>.finally\<close> handler of a started operation: release the slot, look at the queue.\<close>

definition finish :: "'op RateLimiter \<Rightarrow> int \<Rightarrow> 'op RateLimiter \<times> 'op process_result" where
  "finish rl now = process (rl\<lparr>activeCount := activeCount rl - 1\<rparr>) now"

subsection \<open>The limiter under arbitrary interleavings\<close>

text \<open>
  JavaScript runs each callback to completion, so the limiter's life is a sequence of
  three kinds of atomic steps, each stamped with the value of \<open>Date.now()\<close>: a caller
  submits an operation, a timer armed by \<open>process\<close> fires, an operation in flight settles.
  Besides the limiter the system state records which operations are in flight (the
  environment can only settle those) and the history of accepted and started operations.
\<close>

record 'op gate_sys =
  gate :: "'op RateLimiter"
  inflight :: "'op list"
  started_log :: "'op list"
  accepted_log :: "'op list"

datatype 'op gate_event = Submit 'op int | TimerFires int | Settles 'op int

definition absorb :: "'op gate_sys \<Rightarrow> 'op RateLimiter \<times> 'op process_result \<Rightarrow> 'op gate_sys" where
  "absorb s r =
     (case r of
        (rl, Started item) \<Rightarrow>
          s\<lparr>gate := rl, inflight := inflight s @ [item], started_log := started_log s @ [item]\<rparr>
      | (rl, _) \<Rightarrow> s\<lparr>gate := rl\<rparr>)"

fun gate_step :: "'op gate_sys \<Rightarrow> 'op gate_event \<Rightarrow> 'op gate_sys" where
  "gate_step s (Submit fn now) =
     (case schedule (gate s) now fn of
        (rl, QueueFull) \<Rightarrow> s
      | (rl, Enqueued r) \<Rightarrow> absorb (s\<lparr>accepted_log := accepted_log s @ [fn]\<rparr>) (rl, r))"
| "gate_step s (TimerFires now) = absorb s (process (gate s) now)"
| "gate_step s (Settles fn now) =
     (if fn \<in> set (inflight s)
      then absorb (s\<lparr>inflight := remove1 fn (inflight s)\<rparr>) (finish (gate s) now)
      else s)"

definition gate_init :: "RateLimiterOptions \<Rightarrow> 'op gate_sys" where
  "gate_init options =
     \<lparr> gate = newRateLimiter options, inflight = [], started_log = [], accepted_log = [] \<rparr>"

definition gate_run :: "RateLimiterOptions \<Rightarrow> 'op gate_event list \<Rightarrow> 'op gate_sys" where
  "gate_run options evs = foldl gate_step (gate_init options) evs"

subsection \<open>One caller waiting for its slot\<close>

text \<open>
  A caller of \<open>schedule\<close> that found the interval not yet elapsed waits for the timer that
  \<open>process\<close> armed; the timer calls \<open>process\<close> again. \<open>timerLoop\<close> follows these timer
  callbacks (the clock advances by the armed delay) until the head of the queue is started
  or \<open>process\<close> returns without arming anything.
\<close>

function timerLoop :: "'op RateLimiter \<Rightarrow> int \<Rightarrow> 'op RateLimiter \<times> int \<times> 'op option" where
  "timerLoop rl now =
     (case process rl now of
        (rl', Started item) \<Rightarrow> (rl', now, Some item)
      | (rl', Idle) \<Rightarrow> (rl', now, None)
      | (rl', StartTimer wait) \<Rightarrow> timerLoop rl' (now + wait))"
  by pat_completeness auto
termination
proof (relation "measure (\<lambda>(rl, now). nat (minInterval rl - (now - lastStart rl)))")
  show "wf (measure (\<lambda>(rl, now). nat (minInterval rl - (now - lastStart rl))))"
    by simp
next
  fix rl rl' :: "'op RateLimiter" and now wait :: int and r :: "'op process_result"
  assume "(rl', r) = process rl now" and "r = StartTimer wait"
  then show "((rl', now + wait), rl, now)
      \<in> measure (\<lambda>(rl, now). nat (minInterval rl - (now - lastStart rl)))"
    by (auto simp: process_def Let_def split: if_splits list.splits)
qed

declare timerLoop.simps [simp del]

text \<open>
  The three ways a call of \<open>schedule(fn)\<close> can go for the caller when no other caller
  is active: the call throws (\<open>Refused\<close>), \<open>fn\<close> is started (\<open>Running\<close>, possibly after the
  interval timer), or \<open>fn\<close> stays in the queue because every slot is taken (\<open>Blocked\<close>).
\<close>

datatype admission = Refused | Blocked | Running

definition enter :: "'op RateLimiter \<Rightarrow> int \<Rightarrow> 'op \<Rightarrow> admission \<times> 'op RateLimiter \<times> int" where
  "enter rl now fn =
     (case schedule rl now fn of
        (rl', QueueFull) \<Rightarrow> (Refused, rl', now)
      | (rl', Enqueued (Started item)) \<Rightarrow> (Running, rl', now)
      | (rl', Enqueued Idle) \<Rightarrow> (Blocked, rl', now)
      | (rl', Enqueued (StartTimer wait)) \<Rightarrow>
          (case timerLoop rl' (now + wait) of
             (rl'', now', Some item) \<Rightarrow> (Running, rl'', now')
           | (rl'', now', None) \<Rightarrow> (Blocked, rl'', now')))"

section \<open>Sessions and the request pipeline (lib/panasonic/ComfortCloudClient.ts)\<close>

record AuthTokens =
  accessToken :: string
  refreshToken :: string
  expiresAt :: int
  userId :: string

text \<open>
  The body of a response, read through the optional fields of \<open>LoginResponse\<close>;
  \<open>resp_user_id\<close> is \<open>response.user?.id\<close>.
\<close>

record LoginResponse =
  uToken :: "string option"
  resp_accessToken :: "string option"
  resp_refreshToken :: "string option"
  expiresIn :: "int option"
  expires_in :: "int option"
  resp_userId :: "string option"
  resp_user_id :: "string option"

text \<open>
  Errors are values. \<open>AxiosError status message\<close> is the error thrown by the HTTP client
  (\<open>status\<close> is \<open>error.response?.status\<close>, absent for a timeout or a connection failure);
  \<open>Error m\<close> is \<open>new Error(m)\<close>. The source has no other error classes.
\<close>

datatype error = AxiosError "int option" string | Error string

text \<open>The nullish coalescing operator \<open>a ?? b\<close> on optional values.\<close>

definition orElse :: "'a option \<Rightarrow> 'a option \<Rightarrow> 'a option" where
  "orElse a b = (case a of None \<Rightarrow> b | Some v \<Rightarrow> Some v)"

definition declaredLifetime :: "LoginResponse \<Rightarrow> int" where
  "declaredLifetime response =
     (case orElse (expiresIn response) (expires_in response) of None \<Rightarrow> 3600 | Some e \<Rightarrow> e)"

text \<open>
  \<open>parseTokens(response, previous)\<close> at time \<open>now = Date.now()\<close>. The test
  \<open>!accessToken || !refreshToken\<close> is truthiness: an absent and an empty string both throw.
\<close>

definition parseTokens :: "LoginResponse \<Rightarrow> AuthTokens option \<Rightarrow> int \<Rightarrow> error + AuthTokens" where
  "parseTokens response previous now =
     (case (orElse (uToken response) (resp_accessToken response),
            orElse (resp_refreshToken response) (map_option refreshToken previous)) of
        (Some a, Some r) \<Rightarrow>
          if a = [] \<or> r = [] then Inl (Error ''Comfort Cloud authentication failed'')
          else
            Inr \<lparr> accessToken = a,
                  refreshToken = r,
                  expiresAt = now + max (declaredLifetime response - 60) 60 * 1000,
                  userId =
                    (case orElse (orElse (resp_userId response) (resp_user_id response))
                                 (map_option userId previous) of
                       None \<Rightarrow> ''unknown'' | Some u \<Rightarrow> u) \<rparr>
      | _ \<Rightarrow> Inl (Error ''Comfort Cloud authentication failed''))"

text \<open>
  The safety margin a parsed session carries, in milliseconds: the lifetime the server
  declared minus the lifetime stored.
\<close>

definition safetyMargin :: "LoginResponse \<Rightarrow> int \<Rightarrow> AuthTokens \<Rightarrow> int" where
  "safetyMargin response now t = declaredLifetime response * 1000 - (expiresAt t - now)"

datatype req_data = NoData | LoginData string string | RefreshData string
  | ControlData string "(string \<times> rat) list"

record AxiosRequestConfig =
  url :: string
  httpMethod :: string
  data :: req_data

text \<open>
  The upstream service is a parameter: given the request, the \<open>X-User-Authorization\<close>
  header and the number of HTTP calls made before, it tells how long the call takes and
  how it ends.
\<close>

datatype http_result = HttpOk LoginResponse | HttpFail "int option" string

type_synonym http_env = "AxiosRequestConfig \<Rightarrow> string option \<Rightarrow> nat \<Rightarrow> int \<times> http_result"

text \<open>What a run does that can be observed from outside: HTTP calls and backoff sleeps.\<close>

datatype event = EvHttp string | EvDelay int

text \<open>
  The client's fields, the credentials store behind \<open>credentialsClient\<close> (a cell that
  holds the last value set), the clock and the trace. The logger is an injected sink and
  is left out.
\<close>

record client_state =
  tokens :: "AuthTokens option"
  tokensLoaded :: bool
  stored :: "AuthTokens option"
  rateLimiter :: "nat RateLimiter"
  clock :: int
  httpCalls :: nat
  trace :: "event list"

text \<open>
  A promise either resolves, rejects, or stays pending for ever. The last happens to a
  call that is still queued in the limiter when nothing is left that could free a slot:
  \<open>process\<close> is called by \<open>schedule\<close>, by the interval timer and by the \<open>finally\<close> of an
  operation that has settled, and it starts nothing while \<open>activeCount\<close> is at the limit.
  When every slot is held by an attempt that awaits the queued call, no operation settles
  and the counter never drops.
\<close>

datatype 'a outcome = Resolved 'a | Rejected error | Pending

definition getTokens :: "client_state \<Rightarrow> AuthTokens option \<times> client_state" where
  "getTokens s =
     (if \<not> tokensLoaded s
      then (stored s, s\<lparr>tokens := stored s, tokensLoaded := True\<rparr>)
      else (tokens s, s))"

definition setTokens :: "AuthTokens option \<Rightarrow> client_state \<Rightarrow> client_state" where
  "setTokens t s = s\<lparr>tokens := t, tokensLoaded := True, stored := t\<rparr>"

text \<open>
  One logical call of \<open>request\<close>, followed alone (no other caller uses the limiter
  meanwhile) from a limiter whose queue is empty. A response body is read through the
  optional fields of \<open>LoginResponse\<close>, whatever the request.
  \<open>request\<close> is the part before \<open>this.rateLimiter.schedule\<close>, \<open>scheduled\<close> is the call of
  \<open>schedule\<close> with the \<open>async\<close> closure, and \<open>attemptBody\<close> is the closure: the HTTP call and
  its \<open>catch\<close> block. The closure returns the promise of the retry, so its own promise
  settles, and its slot is released, only when the retry has settled; the retry is itself
  a call of \<open>request\<close> and so of \<open>schedule\<close>. The queue entry is the attempt number.
\<close>

function request :: "http_env \<Rightarrow> AxiosRequestConfig \<Rightarrow> bool \<Rightarrow> nat \<Rightarrow> client_state
      \<Rightarrow> LoginResponse outcome \<times> client_state"
  and scheduled :: "http_env \<Rightarrow> AxiosRequestConfig \<Rightarrow> bool \<Rightarrow> nat \<Rightarrow> string option
      \<Rightarrow> client_state \<Rightarrow> LoginResponse outcome \<times> client_state"
  and attemptBody :: "http_env \<Rightarrow> AxiosRequestConfig \<Rightarrow> bool \<Rightarrow> nat \<Rightarrow> string option
      \<Rightarrow> client_state \<Rightarrow> LoginResponse outcome \<times> client_state"
  and refresh :: "http_env \<Rightarrow> AuthTokens \<Rightarrow> client_state \<Rightarrow> AuthTokens outcome \<times> client_state"
  and ensureAuthenticated :: "http_env \<Rightarrow> client_state \<Rightarrow> AuthTokens outcome \<times> client_state"
  and handleUnauthorized :: "http_env \<Rightarrow> client_state \<Rightarrow> unit outcome \<times> client_state"
where
  "request http config requiresAuth attempt s =
     (if requiresAuth then
        (case ensureAuthenticated http s of
           (Resolved toks, s1) \<Rightarrow>
             scheduled http config requiresAuth attempt (Some (accessToken toks)) s1
         | (Rejected e, s1) \<Rightarrow> (Rejected e, s1)
         | (Pending, s1) \<Rightarrow> (Pending, s1))
      else scheduled http config requiresAuth attempt None s)"
| "scheduled http config requiresAuth attempt header s =
     (case enter (rateLimiter s) (clock s) attempt of
        (Refused, rl, now) \<Rightarrow>
          (Rejected (Error ''Rate limiter queue full''), s\<lparr>rateLimiter := rl, clock := now\<rparr>)
      | (Blocked, rl, now) \<Rightarrow> (Pending, s\<lparr>rateLimiter := rl, clock := now\<rparr>)
      | (Running, rl, now) \<Rightarrow>
          (case attemptBody http config requiresAuth attempt header
                  (s\<lparr>rateLimiter := rl, clock := now\<rparr>) of
             (Pending, s') \<Rightarrow> (Pending, s')
           | (r, s') \<Rightarrow> (r, s'\<lparr>rateLimiter := fst (finish (rateLimiter s') (clock s'))\<rparr>)))"
| "attemptBody http config requiresAuth attempt header s =
     (case http config header (httpCalls s) of
        (elapsed, reply) \<Rightarrow>
          let s1 = s\<lparr>httpCalls := Suc (httpCalls s), clock := clock s + elapsed,
                     trace := trace s @ [EvHttp (url config)]\<rparr>
          in (case reply of
                HttpOk body \<Rightarrow> (Resolved body, s1)
              | HttpFail status message \<Rightarrow>
                  if status = Some 401 \<and> requiresAuth \<and> attempt < 2 then
                    (case handleUnauthorized http s1 of
                       (Resolved u, s2) \<Rightarrow> request http config requiresAuth (attempt + 1) s2
                     | (Rejected e, s2) \<Rightarrow> (Rejected e, s2)
                     | (Pending, s2) \<Rightarrow> (Pending, s2))
                  else if (status = Some 429 \<or> 500 \<le> (case status of None \<Rightarrow> 0 | Some c \<Rightarrow> c))
                          \<and> attempt < 4 then
                    let backoff = min (1000 * 2 ^ attempt) 15000;
                        s2 = s1\<lparr>clock := clock s1 + backoff, trace := trace s1 @ [EvDelay backoff]\<rparr>
                    in request http config requiresAuth (attempt + 1) s2
                  else (Rejected (AxiosError status message), s1)))"
| "refresh http toks s =
     (case request http \<lparr>url = ''/auth/token'', httpMethod = ''POST'',
                          data = RefreshData (refreshToken toks)\<rparr> False 0 s of
        (Resolved response, s1) \<Rightarrow>
          (case parseTokens response (Some toks) (clock s1) of
             Inl e \<Rightarrow> (Rejected e, s1)
           | Inr nextTokens \<Rightarrow> (Resolved nextTokens, setTokens (Some nextTokens) s1))
      | (Rejected e, s1) \<Rightarrow> (Rejected e, s1)
      | (Pending, s1) \<Rightarrow> (Pending, s1))"
| "ensureAuthenticated http s =
     (case getTokens s of
        (None, s1) \<Rightarrow> (Rejected (Error ''Comfort Cloud credentials missing''), s1)
      | (Some toks, s1) \<Rightarrow>
          if expiresAt toks - clock s1 < 60 * 1000 then refresh http toks s1
          else (Resolved toks, s1))"
| "handleUnauthorized http s =
     (case getTokens s of
        (None, s1) \<Rightarrow> (Rejected (Error ''Comfort Cloud tokens unavailable''), s1)
      | (Some toks, s1) \<Rightarrow>
          (case refresh http toks s1 of
             (Resolved t, s2) \<Rightarrow> (Resolved (), s2)
           | (Rejected e, s2) \<Rightarrow> (Rejected e, s2)
           | (Pending, s2) \<Rightarrow> (Pending, s2)))"
  by pat_completeness auto
termination
  by (relation "measure (\<lambda>x. case x of
        Inl (Inl (http, config, requiresAuth, attempt, s)) \<Rightarrow>
          (if requiresAuth then 30 else 0) + 3 * (5 - attempt) + 3
      | Inl (Inr (Inl (http, config, requiresAuth, attempt, header, s))) \<Rightarrow>
          (if requiresAuth then 30 else 0) + 3 * (5 - attempt) + 2
      | Inl (Inr (Inr (http, config, requiresAuth, attempt, header, s))) \<Rightarrow>
          (if requiresAuth then 30 else 0) + 3 * (5 - attempt) + 1
      | Inr (Inl (http, toks, s)) \<Rightarrow> 19
      | Inr (Inr (Inl (http, s))) \<Rightarrow> 20
      | Inr (Inr (Inr (http, s))) \<Rightarrow> 20)") auto

declare request.simps [simp del] scheduled.simps [simp del] attemptBody.simps [simp del]
  refresh.simps [simp del] ensureAuthenticated.simps [simp del] handleUnauthorized.simps [simp del]

text \<open>\<open>login\<close> posts the credentials without a session and stores what \<open>parseTokens\<close> returns.\<close>

definition login :: "http_env \<Rightarrow> string \<Rightarrow> string \<Rightarrow> client_state \<Rightarrow> AuthTokens outcome \<times> client_state" where
  "login http email password s =
     (case request http \<lparr>url = ''/auth/login'', httpMethod = ''POST'',
                          data = LoginData email password\<rparr> False 0 s of
        (Resolved response, s1) \<Rightarrow>
          (case parseTokens response None (clock s1) of
             Inl e \<Rightarrow> (Rejected e, s1)
           | Inr toks \<Rightarrow> (Resolved toks, setTokens (Some toks) s1))
      | (Rejected e, s1) \<Rightarrow> (Rejected e, s1)
      | (Pending, s1) \<Rightarrow> (Pending, s1))"

text \<open>A fresh client on a fresh limiter, as \<open>createClient\<close> builds it.\<close>

definition newClient :: "RateLimiterOptions \<Rightarrow> AuthTokens option \<Rightarrow> int \<Rightarrow> client_state" where
  "newClient options inStore now =
     \<lparr> tokens = None, tokensLoaded = False, stored = inStore,
       rateLimiter = newRateLimiter options, clock = now, httpCalls = 0, trace = [] \<rparr>"

text \<open>The limiter of \<open>onInit\<close> in app.ts: \<open>maxConcurrent: 2, minInterval: 400\<close>.\<close>

definition appLimiterOptions :: RateLimiterOptions where
  "appLimiterOptions =
     \<lparr> opt_maxConcurrent = Some 2, opt_minInterval = Some 400, opt_maxQueueSize = None \<rparr>"

section \<open>Write payloads (lib/panasonic/Mappers.ts, writeState)\<close>

text \<open>
  Temperatures and the other measured numbers are modelled as rationals; the code only
  compares them. \<open>DeviceState\<close> has the fields of the interface (\<open>on\<close> is \<open>powerOn\<close>
  here; \<open>raw\<close>, the copy of the wire parameters that no function of this section reads,
  is left out), \<open>DeviceStatePatch\<close> is \<open>Partial<DeviceState>\<close>: every field optional.
\<close>

datatype ThermostatMode = ModeAuto | ModeCool | ModeHeat | ModeDry | ModeFan

datatype FanSpeed = FanAuto | FanLow | FanMedium | FanHigh

datatype SwingMode = SwingOff | SwingVertical | SwingHorizontal | SwingBoth

record DeviceState =
  powerOn :: bool
  thermostatMode :: ThermostatMode
  targetTemperature :: rat
  minTemperature :: "rat option"
  maxTemperature :: "rat option"
  indoorTemperature :: "rat option"
  indoorHumidity :: "rat option"
  outdoorTemperature :: "rat option"
  fanSpeed :: "FanSpeed option"
  swingMode :: "SwingMode option"
  powerConsumption :: "rat option"
  energyConsumption :: "rat option"
  filterAlarm :: "bool option"
  connectionAlarm :: "bool option"
  timestamp :: int

record DeviceStatePatch =
  p_on :: "bool option"
  p_thermostatMode :: "ThermostatMode option"
  p_targetTemperature :: "rat option"
  p_minTemperature :: "rat option"
  p_maxTemperature :: "rat option"
  p_indoorTemperature :: "rat option"
  p_indoorHumidity :: "rat option"
  p_outdoorTemperature :: "rat option"
  p_fanSpeed :: "FanSpeed option"
  p_swingMode :: "SwingMode option"
  p_powerConsumption :: "rat option"
  p_energyConsumption :: "rat option"
  p_filterAlarm :: "bool option"
  p_connectionAlarm :: "bool option"
  p_timestamp :: "int option"

fun MODE_REVERSE_MAP :: "ThermostatMode \<Rightarrow> rat" where
  "MODE_REVERSE_MAP ModeAuto = 0"
| "MODE_REVERSE_MAP ModeHeat = 1"
| "MODE_REVERSE_MAP ModeDry = 2"
| "MODE_REVERSE_MAP ModeCool = 3"
| "MODE_REVERSE_MAP ModeFan = 4"

fun FAN_SPEED_REVERSE_MAP :: "FanSpeed \<Rightarrow> rat" where
  "FAN_SPEED_REVERSE_MAP FanAuto = 0"
| "FAN_SPEED_REVERSE_MAP FanLow = 1"
| "FAN_SPEED_REVERSE_MAP FanMedium = 2"
| "FAN_SPEED_REVERSE_MAP FanHigh = 3"

definition clamp :: "rat \<Rightarrow> rat option \<Rightarrow> rat option \<Rightarrow> rat" where
  "clamp val mn mx =
     (let v1 = (case mn of None \<Rightarrow> val | Some lo \<Rightarrow> max lo val)
      in case mx of None \<Rightarrow> v1 | Some hi \<Rightarrow> min hi v1)"

fun swingPayload :: "SwingMode \<Rightarrow> (string \<times> rat) list" where
  "swingPayload SwingOff = [(''airSwingUD'', 0), (''airSwingLR'', 0)]"
| "swingPayload SwingVertical = [(''airSwingUD'', 1), (''airSwingLR'', 0)]"
| "swingPayload SwingHorizontal = [(''airSwingUD'', 0), (''airSwingLR'', 1)]"
| "swingPayload SwingBoth = [(''airSwingUD'', 1), (''airSwingLR'', 1)]"

text \<open>
  The payload object as the list of its properties in insertion order (each key is
  assigned at most once). \<open>currentState?.minTemperature\<close> is \<open>Option.bind\<close>.
\<close>

definition createWritePayload :: "DeviceStatePatch \<Rightarrow> DeviceState option \<Rightarrow> (string \<times> rat) list" where
  "createWritePayload patch currentState =
     (case p_on patch of None \<Rightarrow> [] | Some b \<Rightarrow> [(''operate'', if b then 1 else 0)]) @
     (case p_thermostatMode patch of None \<Rightarrow> []
      | Some m \<Rightarrow> [(''operationMode'', MODE_REVERSE_MAP m)]) @
     (case p_targetTemperature patch of None \<Rightarrow> []
      | Some t \<Rightarrow>
          [(''targetTemp'',
            clamp t (orElse (p_minTemperature patch) (Option.bind currentState minTemperature))
                    (orElse (p_maxTemperature patch) (Option.bind currentState maxTemperature)))]) @
     (case p_fanSpeed patch of None \<Rightarrow> []
      | Some f \<Rightarrow> [(''fanSpeed'', FAN_SPEED_REVERSE_MAP f)]) @
     (case p_swingMode patch of None \<Rightarrow> [] | Some w \<Rightarrow> swingPayload w)"

text \<open>
  The request \<open>writeState(deviceId, patch)\<close> sends: the payload is built from the patch
  and the entry of \<open>stateCache\<close> for the device.
\<close>

definition writeStateRequest :: "(string \<rightharpoonup> DeviceState) \<Rightarrow> string \<Rightarrow> DeviceStatePatch \<Rightarrow> AxiosRequestConfig" where
  "writeStateRequest stateCache deviceId patch =
     \<lparr> url = ''/deviceStatus/control'', httpMethod = ''POST'',
       data = ControlData deviceId (createWritePayload patch (stateCache deviceId)) \<rparr>"

text \<open>
  The reading of the specification that is compared with the code: a patch in which every
  field the caller left out has been filled in from the cached snapshot.
\<close>

definition filledFromCache :: "DeviceStatePatch \<Rightarrow> DeviceState \<Rightarrow> DeviceStatePatch" where
  "filledFromCache patch cur =
     \<lparr> p_on = orElse (p_on patch) (Some (powerOn cur)),
       p_thermostatMode = orElse (p_thermostatMode patch) (Some (thermostatMode cur)),
       p_targetTemperature = orElse (p_targetTemperature patch) (Some (targetTemperature cur)),
       p_minTemperature = orElse (p_minTemperature patch) (minTemperature cur),
       p_maxTemperature = orElse (p_maxTemperature patch) (maxTemperature cur),
       p_indoorTemperature = orElse (p_indoorTemperature patch) (indoorTemperature cur),
       p_indoorHumidity = orElse (p_indoorHumidity patch) (indoorHumidity cur),
       p_outdoorTemperature = orElse (p_outdoorTemperature patch) (outdoorTemperature cur),
       p_fanSpeed = orElse (p_fanSpeed patch) (fanSpeed cur),
       p_swingMode = orElse (p_swingMode patch) (swingMode cur),
       p_powerConsumption = orElse (p_powerConsumption patch) (powerConsumption cur),
       p_energyConsumption = orElse (p_energyConsumption patch) (energyConsumption cur),
       p_filterAlarm = orElse (p_filterAlarm patch) (filterAlarm cur),
       p_connectionAlarm = orElse (p_connectionAlarm patch) (connectionAlarm cur),
       p_timestamp = orElse (p_timestamp patch) (Some (timestamp cur)) \<rparr>"

definition emptyPatch :: DeviceStatePatch where
  "emptyPatch =
     \<lparr> p_on = None, p_thermostatMode = None, p_targetTemperature = None,
       p_minTemperature = None, p_maxTemperature = None, p_indoorTemperature = None,
       p_indoorHumidity = None, p_outdoorTemperature = None, p_fanSpeed = None,
       p_swingMode = None, p_powerConsumption = None, p_energyConsumption = None,
       p_filterAlarm = None, p_connectionAlarm = None, p_timestamp = None \<rparr>"

section \<open>Poll scheduler (polling/PollScheduler.ts)\<close>

record PollTask =
  task_id :: string
  interval :: int
  immediate :: "bool option"

record ScheduledTask = PollTask +
  timeout :: "nat option"
  lastRun :: "int option"

text \<open>
  Task objects are shared between the \<open>tasks\<close> map, the timer callbacks and the running
  \<open>execute\<close> calls, so they live in a store (\<open>objects\<close>, addressed by position) and the
  map holds references. The timers of the runtime are part of the state: a pending timer is
  a handle, the task object its callback will execute, and its delay. \<open>executing\<close> are the
  calls of \<open>execute\<close> waiting in \<open>await task.run()\<close>, \<open>runLog\<close> the invocations of
  \<open>task.run()\<close> so far, \<open>draws\<close> the number of calls of \<open>Math.random\<close>.
\<close>

record PollScheduler =
  tasks :: "(string \<times> nat) list"
  objects :: "ScheduledTask list"
  jitter :: int
  running :: bool
  pendingTimers :: "(nat \<times> nat \<times> int) list"
  nextHandle :: nat
  executing :: "nat list"
  runLog :: "string list"
  draws :: nat

datatype ps_error = AlreadyRegistered string | UnknownTask string

definition newPollScheduler :: "int option \<Rightarrow> PollScheduler" where
  "newPollScheduler jitterOption =
     \<lparr> tasks = [], objects = [], jitter = (case jitterOption of None \<Rightarrow> 0 | Some j \<Rightarrow> j),
       running = False, pendingTimers = [], nextHandle = 0, executing = [], runLog = [],
       draws = 0 \<rparr>"

text \<open>
  Updating the object behind a reference. References come from \<open>register\<close> only, so the
  other branch is never taken; it leaves the state as it is.
\<close>

definition updateObject :: "nat \<Rightarrow> (ScheduledTask \<Rightarrow> ScheduledTask) \<Rightarrow> PollScheduler \<Rightarrow> PollScheduler" where
  "updateObject r f s =
     (if r < length (objects s) then s\<lparr>objects := (objects s)[r := f (objects s ! r)]\<rparr> else s)"

definition objectAt :: "PollScheduler \<Rightarrow> nat \<Rightarrow> ScheduledTask option" where
  "objectAt s r = (if r < length (objects s) then Some (objects s ! r) else None)"

text \<open>
  \<open>calculateDelay\<close>: \<open>rng n\<close> is the value of \<open>Math.floor(Math.random() * this.jitter)\<close> at
  the \<open>n\<close>-th draw.
\<close>

definition calculateDelay :: "(nat \<Rightarrow> int) \<Rightarrow> PollScheduler \<Rightarrow> int \<Rightarrow> int \<times> PollScheduler" where
  "calculateDelay rng s ival =
     (if jitter s \<le> 0 then (ival, s)
      else (ival + rng (draws s), s\<lparr>draws := Suc (draws s)\<rparr>))"

definition ps_clearTimeout :: "nat \<Rightarrow> PollScheduler \<Rightarrow> PollScheduler" where
  "ps_clearTimeout r s =
     (case Option.bind (objectAt s r) timeout of
        None \<Rightarrow> s
      | Some h \<Rightarrow>
          updateObject r (\<lambda>t. t\<lparr>timeout := None\<rparr>)
            (s\<lparr>pendingTimers := filter (\<lambda>(h', r', d). h' \<noteq> h) (pendingTimers s)\<rparr>))"

definition ps_schedule :: "(nat \<Rightarrow> int) \<Rightarrow> nat \<Rightarrow> bool \<Rightarrow> PollScheduler \<Rightarrow> PollScheduler" where
  "ps_schedule rng r immediately s =
     (if \<not> running s then s
      else
        (case objectAt s r of
           None \<Rightarrow> s
         | Some t \<Rightarrow>
             (case (if immediately then (0, s) else calculateDelay rng s (interval t)) of
                (delay, s1) \<Rightarrow>
                  updateObject r (\<lambda>t. t\<lparr>timeout := Some (nextHandle s1)\<rparr>)
                    (s1\<lparr>pendingTimers := pendingTimers s1 @ [(nextHandle s1, r, delay)],
                        nextHandle := Suc (nextHandle s1)\<rparr>))))"

definition immediateOrTrue :: "bool option \<Rightarrow> bool" where
  "immediateOrTrue i = (case i of None \<Rightarrow> True | Some b \<Rightarrow> b)"

definition ps_register :: "(nat \<Rightarrow> int) \<Rightarrow> PollTask \<Rightarrow> PollScheduler \<Rightarrow> ps_error + PollScheduler" where
  "ps_register rng task s =
     (if map_of (tasks s) (task_id task) \<noteq> None then Inl (AlreadyRegistered (task_id task))
      else
        let r = length (objects s);
            s1 = s\<lparr>objects := objects s @ [PollTask.extend task \<lparr>timeout = None, lastRun = None\<rparr>],
                   tasks := tasks s @ [(task_id task, r)]\<rparr>
        in Inr (if running s1 then ps_schedule rng r (immediateOrTrue (immediate task)) s1
                else s1))"

definition ps_updateInterval :: "(nat \<Rightarrow> int) \<Rightarrow> string \<Rightarrow> int \<Rightarrow> PollScheduler \<Rightarrow> ps_error + PollScheduler" where
  "ps_updateInterval rng ident ival s =
     (case map_of (tasks s) ident of
        None \<Rightarrow> Inl (UnknownTask ident)
      | Some r \<Rightarrow>
          let s1 = updateObject r (\<lambda>t. t\<lparr>interval := ival\<rparr>) s
          in Inr (if running s1 then ps_schedule rng r False (ps_clearTimeout r s1) else s1))"

definition scheduleInitially :: "(nat \<Rightarrow> int) \<Rightarrow> PollScheduler \<Rightarrow> nat \<Rightarrow> PollScheduler" where
  "scheduleInitially rng s r =
     ps_schedule rng r (immediateOrTrue (Option.bind (objectAt s r) immediate)) s"

definition ps_start :: "(nat \<Rightarrow> int) \<Rightarrow> PollScheduler \<Rightarrow> PollScheduler" where
  "ps_start rng s =
     (if running s then s
      else foldl (scheduleInitially rng) (s\<lparr>running := True\<rparr>) (map snd (tasks s)))"

definition ps_stop :: "PollScheduler \<Rightarrow> PollScheduler" where
  "ps_stop s =
     (if \<not> running s then s
      else foldl (\<lambda>s' r. ps_clearTimeout r s') (s\<lparr>running := False\<rparr>) (map snd (tasks s)))"

definition ps_unregister :: "string \<Rightarrow> PollScheduler \<Rightarrow> PollScheduler" where
  "ps_unregister ident s =
     (case map_of (tasks s) ident of
        None \<Rightarrow> s
      | Some r \<Rightarrow>
          (let s1 = ps_clearTimeout r s
           in s1\<lparr>tasks := filter (\<lambda>(i, r'). i \<noteq> ident) (tasks s1)\<rparr>))"

text \<open>
  \<open>execute\<close> in its two halves: up to \<open>await task.run()\<close>, and from the moment the action
  has settled (the \<open>catch\<close> only logs, so success and failure continue alike) through
  \<open>finally\<close>.
\<close>

definition executeBegin :: "nat \<Rightarrow> int \<Rightarrow> PollScheduler \<Rightarrow> PollScheduler" where
  "executeBegin r now s =
     (if \<not> running s then s
      else
        (case objectAt s r of
           None \<Rightarrow> s
         | Some t \<Rightarrow>
             updateObject r (\<lambda>t. t\<lparr>lastRun := Some now\<rparr>)
               (s\<lparr>executing := executing s @ [r], runLog := runLog s @ [task_id t]\<rparr>)))"

definition executeEnd :: "(nat \<Rightarrow> int) \<Rightarrow> nat \<Rightarrow> PollScheduler \<Rightarrow> PollScheduler" where
  "executeEnd rng r s =
     (let s1 = s\<lparr>executing := remove1 r (executing s)\<rparr>
      in if running s1 then ps_schedule rng r False s1 else s1)"

text \<open>
  What can happen to a scheduler: the calls of its public methods, a pending timer coming
  due (with the time), and a running action settling.
\<close>

datatype ps_event = Register PollTask | UpdateInterval string int | Start | Stop
  | Unregister string | TimerDue nat int | RunSettles nat

fun ps_step :: "(nat \<Rightarrow> int) \<Rightarrow> PollScheduler \<Rightarrow> ps_event \<Rightarrow> PollScheduler" where
  "ps_step rng s (Register task) = (case ps_register rng task s of Inl e \<Rightarrow> s | Inr s' \<Rightarrow> s')"
| "ps_step rng s (UpdateInterval ident ival) =
     (case ps_updateInterval rng ident ival s of Inl e \<Rightarrow> s | Inr s' \<Rightarrow> s')"
| "ps_step rng s Start = ps_start rng s"
| "ps_step rng s Stop = ps_stop s"
| "ps_step rng s (Unregister ident) = ps_unregister ident s"
| "ps_step rng s (TimerDue h now) =
     (case find (\<lambda>(h', r, d). h' = h) (pendingTimers s) of
        None \<Rightarrow> s
      | Some (h', r, d) \<Rightarrow>
          executeBegin r now
            (s\<lparr>pendingTimers := filter (\<lambda>(h', r', d'). h' \<noteq> h) (pendingTimers s)\<rparr>))"
| "ps_step rng s (RunSettles r) =
     (if r \<in> set (executing s) then executeEnd rng r s else s)"

text \<open>Events that are not calls of the scheduler's methods: time passing, actions ending.\<close>

fun isPassive :: "ps_event \<Rightarrow> bool" where
  "isPassive (TimerDue h now) = True"
| "isPassive (RunSettles r) = True"
| "isPassive ev = False"

section \<open>Invariants and example inputs\<close>

text \<open>
  The invariant of the limiter: the counter is the number of operations in flight, it never
  exceeds the limit, and the operations started so far followed by the queue are the
  operations accepted so far, in the order of their submission.
\<close>

definition gate_inv :: "'op gate_sys \<Rightarrow> bool" where
  "gate_inv s =
     (int (length (inflight s)) = activeCount (gate s) \<and>
      activeCount (gate s) \<le> maxConcurrent (gate s) \<and>
      started_log s @ queue (gate s) = accepted_log s)"

text \<open>Two client states carry the same session.\<close>

definition sameSession :: "client_state \<Rightarrow> client_state \<Rightarrow> bool" where
  "sameSession s s' = (tokens s' = tokens s \<and> stored s' = stored s \<and> tokensLoaded s' = tokensLoaded s)"

text \<open>
  The events of a request that fails with a retryable status at every attempt from
  \<open>attempt\<close> on: a call and a backoff wait for each attempt below 4, then the last call.
\<close>

definition retryTrace :: "string \<Rightarrow> nat \<Rightarrow> event list" where
  "retryTrace u attempt =
     concat (map (\<lambda>k. [EvHttp u, EvDelay (min (1000 * 2 ^ k) 15000)]) [attempt..<4]) @ [EvHttp u]"

text \<open>Limiters used as concrete inputs.\<close>

definition oneDeep :: RateLimiterOptions where
  "oneDeep = \<lparr> opt_maxConcurrent = Some 1, opt_minInterval = Some 0, opt_maxQueueSize = Some 1 \<rparr>"

definition zeroBound :: RateLimiterOptions where
  "zeroBound = \<lparr> opt_maxConcurrent = Some 1, opt_minInterval = Some 0, opt_maxQueueSize = Some 0 \<rparr>"

definition negBound :: RateLimiterOptions where
  "negBound = \<lparr> opt_maxConcurrent = Some 1, opt_minInterval = Some 0, opt_maxQueueSize = Some (- 1) \<rparr>"

definition twoSlots :: RateLimiterOptions where
  "twoSlots = \<lparr> opt_maxConcurrent = Some 2, opt_minInterval = Some 0, opt_maxQueueSize = None \<rparr>"

definition threeSlots :: RateLimiterOptions where
  "threeSlots = \<lparr> opt_maxConcurrent = Some 3, opt_minInterval = Some 400, opt_maxQueueSize = None \<rparr>"

definition fiveSlots :: RateLimiterOptions where
  "fiveSlots = \<lparr> opt_maxConcurrent = Some 5, opt_minInterval = Some 400, opt_maxQueueSize = None \<rparr>"

text \<open>Responses, sessions, requests and upstream behaviours used as concrete inputs.\<close>

definition shortLived :: LoginResponse where
  "shortLived = \<lparr> uToken = Some ''u1'', resp_accessToken = None, resp_refreshToken = Some ''r1'',
                   expiresIn = Some 30, expires_in = None, resp_userId = None, resp_user_id = None \<rparr>"

definition hourLived :: LoginResponse where
  "hourLived = \<lparr> uToken = Some ''u1'', resp_accessToken = None, resp_refreshToken = Some ''r1'',
                  expiresIn = Some 3600, expires_in = None, resp_userId = None, resp_user_id = None \<rparr>"

definition freshTokens :: LoginResponse where
  "freshTokens = \<lparr> uToken = None, resp_accessToken = Some ''a1'', resp_refreshToken = None,
                    expiresIn = Some 3600, expires_in = None, resp_userId = None,
                    resp_user_id = None \<rparr>"

definition nestedUser :: LoginResponse where
  "nestedUser = \<lparr> uToken = None, resp_accessToken = Some ''a1'', resp_refreshToken = None,
                   expiresIn = Some 3600, expires_in = None, resp_userId = None,
                   resp_user_id = Some ''u2'' \<rparr>"

definition noTokens :: LoginResponse where
  "noTokens = \<lparr> uToken = None, resp_accessToken = None, resp_refreshToken = Some ''r9'',
                 expiresIn = Some 3600, expires_in = None, resp_userId = Some ''u9'',
                 resp_user_id = None \<rparr>"

definition session0 :: AuthTokens where
  "session0 = \<lparr> accessToken = ''a0'', refreshToken = ''r0'', expiresAt = 4600000, userId = ''u0'' \<rparr>"

definition loginRequest :: AxiosRequestConfig where
  "loginRequest = \<lparr> url = ''/auth/login'', httpMethod = ''POST'',
                     data = LoginData ''user@example.org'' ''secret'' \<rparr>"

definition statusRequest :: AxiosRequestConfig where
  "statusRequest = \<lparr> url = ''/deviceStatus/abc123'', httpMethod = ''GET'', data = NoData \<rparr>"

definition always429 :: http_env where
  "always429 = (\<lambda>config header n. (100, HttpFail (Some 429) ''Too Many Requests''))"


definition rejects401 :: http_env where
  "rejects401 = (\<lambda>config header n.
     if url config = ''/auth/token'' then (100, HttpOk freshTokens)
     else (100, HttpFail (Some 401) ''Unauthorized''))"

definition answers :: "LoginResponse \<Rightarrow> http_env" where
  "answers response = (\<lambda>config header n. (100, HttpOk response))"

text \<open>A cached device state and two partial writes.\<close>

definition cachedState :: DeviceState where
  "cachedState =
     \<lparr> powerOn = False, thermostatMode = ModeHeat, targetTemperature = 22,
       minTemperature = Some 16, maxTemperature = Some 30, indoorTemperature = Some (43 / 2),
       indoorHumidity = None, outdoorTemperature = None, fanSpeed = Some FanLow,
       swingMode = Some SwingOff, powerConsumption = None, energyConsumption = None,
       filterAlarm = Some False, connectionAlarm = Some False, timestamp = 1000000 \<rparr>"

definition cache0 :: "string \<rightharpoonup> DeviceState" where
  "cache0 = [''abc123'' \<mapsto> cachedState]"

definition powerPatch :: DeviceStatePatch where
  "powerPatch = emptyPatch\<lparr>p_on := Some True\<rparr>"

definition hotPatch :: DeviceStatePatch where
  "hotPatch = emptyPatch\<lparr>p_targetTemperature := Some 40\<rparr>"

text \<open>
  A scheduler run: the task is registered and started, its timer fires, the interval is
  changed while the action is in flight, the action ends, the scheduler is stopped.
\<close>

definition essentialTask :: PollTask where
  "essentialTask = \<lparr> task_id = ''essential'', interval = 1000, immediate = Some True \<rparr>"

definition noJitter :: "nat \<Rightarrow> int" where
  "noJitter n = 0"

definition leakingRun :: "ps_event list" where
  "leakingRun = [Register essentialTask, Start, TimerDue 0 5, UpdateInterval ''essential'' 2000,
                 RunSettles 0, Stop]"

section \<open>Properties of the rate limiter\<close>

lemma length_remove1_int: "x \<in> set xs \<Longrightarrow> int (length (remove1 x xs)) = int (length xs) - 1"
  by (induction xs) auto

lemma process_cases:
  "process rl now = (rl, Idle) \<or> (\<exists>w. process rl now = (rl, StartTimer w)) \<or>
   (\<exists>item rest. queue rl = item # rest \<and> activeCount rl < maxConcurrent rl \<and>
      process rl now =
        (rl\<lparr>queue := rest, activeCount := activeCount rl + 1, lastStart := now\<rparr>, Started item))"
  by (auto simp: process_def Let_def split: list.splits)

lemma process_maxConcurrent: "maxConcurrent (fst (process rl now)) = maxConcurrent rl"
  using process_cases [of rl now] by auto

lemma process_maxQueueSize: "maxQueueSize (fst (process rl now)) = maxQueueSize rl"
  using process_cases [of rl now] by auto

lemma absorb_process_inv:
  assumes "int (length (inflight s)) = activeCount rl" "activeCount rl \<le> maxConcurrent rl"
    "started_log s @ queue rl = accepted_log s"
  shows "gate_inv (absorb s (process rl now))"
  using process_cases [of rl now] assms
  by (auto simp: gate_inv_def absorb_def)

lemma gate_step_inv: "gate_inv s \<Longrightarrow> gate_inv (gate_step s ev)"
proof (cases ev)
  case (Submit fn now)
  assume inv: "gate_inv s"
  show ?thesis
  proof (cases "queueFull (gate s)")
    case True
    with Submit inv show ?thesis by (simp add: schedule_def)
  next
    case False
    let ?s1 = "s\<lparr>accepted_log := accepted_log s @ [fn]\<rparr>"
    let ?rl = "(gate s)\<lparr>queue := queue (gate s) @ [fn]\<rparr>"
    have "gate_step s ev = absorb ?s1 (process ?rl now)"
      using Submit False by (simp add: schedule_def split: prod.splits)
    moreover have "gate_inv (absorb ?s1 (process ?rl now))"
      using inv by (intro absorb_process_inv) (auto simp: gate_inv_def)
    ultimately show ?thesis by simp
  qed
next
  case (TimerFires now)
  assume "gate_inv s"
  then show ?thesis
    unfolding TimerFires gate_step.simps
    by (intro absorb_process_inv) (auto simp: gate_inv_def)
next
  case (Settles fn now)
  assume inv: "gate_inv s"
  show ?thesis
  proof (cases "fn \<in> set (inflight s)")
    case False
    with Settles inv show ?thesis by simp
  next
    case True
    then have len: "int (length (remove1 fn (inflight s))) = int (length (inflight s)) - 1"
      by (rule length_remove1_int)
    have "gate_step s ev =
        absorb (s\<lparr>inflight := remove1 fn (inflight s)\<rparr>)
          (process ((gate s)\<lparr>activeCount := activeCount (gate s) - 1\<rparr>) now)"
      using Settles True by (simp add: finish_def)
    moreover have "gate_inv (absorb (s\<lparr>inflight := remove1 fn (inflight s)\<rparr>)
          (process ((gate s)\<lparr>activeCount := activeCount (gate s) - 1\<rparr>) now))"
      using inv len by (intro absorb_process_inv) (auto simp: gate_inv_def)
    ultimately show ?thesis by simp
  qed
qed

lemma gate_init_inv: "gate_inv (gate_init options)"
  by (simp add: gate_inv_def gate_init_def newRateLimiter_def)

lemma foldl_gate_inv: "gate_inv s \<Longrightarrow> gate_inv (foldl gate_step s evs)"
  by (induction evs arbitrary: s) (simp_all add: gate_step_inv)

lemma gate_absorb: "gate (absorb s r) = fst r"
  by (cases r) (auto simp: absorb_def split: process_result.splits)

lemma gate_step_maxConcurrent: "maxConcurrent (gate (gate_step s ev)) = maxConcurrent (gate s)"
proof (cases ev)
  case (Submit fn now)
  show ?thesis
  proof (cases "queueFull (gate s)")
    case True
    with Submit show ?thesis by (simp add: schedule_def)
  next
    case False
    with Submit have "gate (gate_step s ev) = fst (process ((gate s)\<lparr>queue := queue (gate s) @ [fn]\<rparr>) now)"
      by (simp add: schedule_def gate_absorb split: prod.splits)
    then show ?thesis by (simp add: process_maxConcurrent)
  qed
next
  case (TimerFires now)
  then show ?thesis by (simp add: gate_absorb process_maxConcurrent)
next
  case (Settles fn now)
  then show ?thesis by (simp add: finish_def gate_absorb process_maxConcurrent)
qed

lemma foldl_gate_maxConcurrent:
  "maxConcurrent (gate (foldl gate_step s evs)) = maxConcurrent (gate s)"
  by (induction evs arbitrary: s) (simp_all add: gate_step_maxConcurrent)

text \<open>
  Claim C6. For every sequence of submissions, timer callbacks and completions on a limiter
  built with \<open>maxConcurrent = k\<close>, \<open>k \<ge> 1\<close>: at most \<open>k\<close> operations are in flight,
  \<open>activeCount\<close> is their number and stays at most \<open>maxConcurrent\<close>, and operations are
  started in the order in which they were accepted (first in, first out).
\<close>

theorem gate_bounded_fifo:
  assumes "opt_maxConcurrent options = Some k" and "1 \<le> k"
  shows "int (length (inflight (gate_run options evs))) \<le> k \<and>
         activeCount (gate (gate_run options evs)) = int (length (inflight (gate_run options evs))) \<and>
         activeCount (gate (gate_run options evs)) \<le> maxConcurrent (gate (gate_run options evs)) \<and>
         maxConcurrent (gate (gate_run options evs)) = k \<and>
         started_log (gate_run options evs) @ queue (gate (gate_run options evs))
           = accepted_log (gate_run options evs)"
proof -
  have inv: "gate_inv (gate_run options evs)"
    unfolding gate_run_def by (rule foldl_gate_inv [OF gate_init_inv])
  have k: "maxConcurrent (gate (gate_run options evs)) = k"
    using assms
    by (simp add: gate_run_def gate_init_def newRateLimiter_def foldl_gate_maxConcurrent)
  from inv k show ?thesis by (auto simp: gate_inv_def)
qed

lemma gate_step_maxQueueSize: "maxQueueSize (gate (gate_step s ev)) = maxQueueSize (gate s)"
proof (cases ev)
  case (Submit fn now)
  show ?thesis
  proof (cases "queueFull (gate s)")
    case True
    with Submit show ?thesis by (simp add: schedule_def)
  next
    case False
    with Submit have "gate (gate_step s ev) = fst (process ((gate s)\<lparr>queue := queue (gate s) @ [fn]\<rparr>) now)"
      by (simp add: schedule_def gate_absorb split: prod.splits)
    then show ?thesis by (simp add: process_maxQueueSize)
  qed
next
  case (TimerFires now)
  then show ?thesis by (simp add: gate_absorb process_maxQueueSize)
next
  case (Settles fn now)
  then show ?thesis by (simp add: finish_def gate_absorb process_maxQueueSize)
qed

lemma foldl_gate_maxQueueSize:
  "maxQueueSize (gate (foldl gate_step s evs)) = maxQueueSize (gate s)"
  by (induction evs arbitrary: s) (simp_all add: gate_step_maxQueueSize)

lemma unbounded_not_full:
  "maxQueueSize rl = None \<or> maxQueueSize rl = Some 0 \<Longrightarrow> \<not> queueFull rl"
  by (auto simp: queueFull_def)

lemma submit_accepted:
  assumes "\<not> queueFull (gate s)" "started_log s = inflight s"
  shows "accepted_log (gate_step s (Submit fn now)) = accepted_log s @ [fn] \<and>
         started_log (gate_step s (Submit fn now)) = inflight (gate_step s (Submit fn now))"
  using assms process_cases [of "(gate s)\<lparr>queue := queue (gate s) @ [fn]\<rparr>" now]
  by (auto simp: schedule_def absorb_def)

lemma submits_accepted:
  assumes "maxQueueSize (gate s) = None \<or> maxQueueSize (gate s) = Some 0"
    and "started_log s = inflight s"
  shows "accepted_log (foldl gate_step s (map (\<lambda>fn. Submit fn now) fns)) = accepted_log s @ fns \<and>
         started_log (foldl gate_step s (map (\<lambda>fn. Submit fn now) fns))
           = inflight (foldl gate_step s (map (\<lambda>fn. Submit fn now) fns))"
  using assms
proof (induction fns arbitrary: s)
  case Nil
  then show ?case by simp
next
  case (Cons fn fns)
  let ?s1 = "gate_step s (Submit fn now)"
  have nf: "\<not> queueFull (gate s)"
    using Cons.prems(1) by (rule unbounded_not_full)
  have a: "accepted_log ?s1 = accepted_log s @ [fn]" and b: "started_log ?s1 = inflight ?s1"
    using submit_accepted [OF nf Cons.prems(2)] by auto
  have c: "maxQueueSize (gate ?s1) = None \<or> maxQueueSize (gate ?s1) = Some 0"
    using Cons.prems(1) by (simp only: gate_step_maxQueueSize)
  from Cons.IH [OF c b] a show ?case by simp
qed

text \<open>\<open>schedule\<close> refuses exactly when the guard holds, and then changes nothing.\<close>

lemma full_queue_refuses:
  "queueFull rl \<Longrightarrow> schedule rl now fn = (rl, QueueFull)"
  by (simp add: schedule_def)

lemma refused_iff_full:
  "(snd (schedule rl now fn) = QueueFull) = queueFull rl"
  by (simp add: schedule_def split: prod.splits)

lemma configured_maxQueueSize:
  "maxQueueSize (gate (gate_run options evs)) = opt_maxQueueSize options"
  by (simp add: gate_run_def gate_init_def newRateLimiter_def foldl_gate_maxQueueSize)

text \<open>
  Claim C7, as the code has it. On a limiter configured with a non-zero \<open>maxQueueSize\<close>,
  in any state it can reach, a call of \<open>schedule\<close> while the queue holds at least that many
  entries fails with the queue-full error and leaves the limiter as it was: the operation
  is neither enqueued nor started, and the queue keeps its length.
\<close>

theorem schedule_rejects_when_full:
  fixes evs :: "'a gate_event list" and fn :: 'a
  assumes "opt_maxQueueSize options = Some m" and "m \<noteq> 0"
    and "m \<le> int (length (queue (gate (gate_run options evs))))"
  shows "schedule (gate (gate_run options evs)) now fn = (gate (gate_run options evs), QueueFull) \<and>
         gate_step (gate_run options evs) (Submit fn now) = gate_run options evs"
proof -
  have "queueFull (gate (gate_run options evs))"
    using assms by (simp add: queueFull_def configured_maxQueueSize)
  then have "schedule (gate (gate_run options evs)) now fn = (gate (gate_run options evs), QueueFull)"
    by (rule full_queue_refuses)
  then show ?thesis by simp
qed

text \<open>
  Claim C9, as the code has it. When \<open>maxQueueSize\<close> is unset or \<open>0\<close>, \<open>schedule\<close> never
  fails with the queue-full error in any reachable state of the limiter, and the queue is
  unbounded: of \<open>n\<close> operations submitted in a row every one is accepted, so all but at
  most \<open>maxConcurrent\<close> of them are in the queue. The bound is enforced for every
  non-zero \<open>maxQueueSize\<close>: on any configured limiter \<open>schedule\<close> fails with the queue-full
  error exactly when \<open>maxQueueSize\<close> is a number other than \<open>0\<close> and at most the length of
  the queue (so a negative bound refuses every call).
\<close>

theorem schedule_never_full_without_bound:
  fixes evs :: "'a gate_event list" and fns :: "'a list" and fn :: 'a
    and evs' :: "'b gate_event list" and fn' :: 'b
  assumes "opt_maxQueueSize options = None \<or> opt_maxQueueSize options = Some 0"
  shows "snd (schedule (gate (gate_run options evs)) now fn) \<noteq> QueueFull \<and>
         accepted_log (gate_run options (map (\<lambda>fn. Submit fn now) fns)) = fns \<and>
         int (length fns)
           \<le> int (length (queue (gate (gate_run options (map (\<lambda>fn. Submit fn now) fns)))))
             + maxConcurrent (newRateLimiter options :: 'a RateLimiter) \<and>
         (snd (schedule (gate (gate_run options' evs')) now' fn') = QueueFull)
           = (case opt_maxQueueSize options' of
                None \<Rightarrow> False
              | Some m \<Rightarrow> m \<noteq> 0 \<and> m \<le> int (length (queue (gate (gate_run options' evs')))))"
proof -
  let ?s = "gate_run options (map (\<lambda>fn. Submit fn now) fns)"
  have mq: "maxQueueSize (gate (gate_init options :: 'a gate_sys)) = None
            \<or> maxQueueSize (gate (gate_init options :: 'a gate_sys)) = Some 0"
    using assms by (simp add: gate_init_def newRateLimiter_def)
  have "maxQueueSize (gate (gate_run options evs :: 'a gate_sys)) = None
        \<or> maxQueueSize (gate (gate_run options evs :: 'a gate_sys)) = Some 0"
    using mq by (simp add: gate_run_def foldl_gate_maxQueueSize)
  then have nf: "\<not> queueFull (gate (gate_run options evs :: 'a gate_sys))"
    by (rule unbounded_not_full)
  have one: "snd (schedule (gate (gate_run options evs)) now fn) \<noteq> QueueFull"
    using nf by (simp add: schedule_def split: prod.splits)
  have acc: "accepted_log ?s = fns" and st: "started_log ?s = inflight ?s"
    using submits_accepted [OF mq, of now fns]
    by (simp_all add: gate_run_def gate_init_def)
  have inv: "gate_inv ?s"
    unfolding gate_run_def by (rule foldl_gate_inv [OF gate_init_inv])
  have "length fns = length (inflight ?s) + length (queue (gate ?s))"
    using inv acc st by (metis gate_inv_def length_append)
  moreover have "maxConcurrent (gate ?s) = maxConcurrent (newRateLimiter options :: 'a RateLimiter)"
    by (simp add: gate_run_def gate_init_def foldl_gate_maxConcurrent)
  then have "int (length (inflight ?s)) \<le> maxConcurrent (newRateLimiter options :: 'a RateLimiter)"
    using inv by (simp add: gate_inv_def)
  ultimately have grow: "int (length fns)
      \<le> int (length (queue (gate ?s))) + maxConcurrent (newRateLimiter options :: 'a RateLimiter)"
    by simp
  have enforced: "(snd (schedule (gate (gate_run options' evs')) now' fn') = QueueFull)
           = (case opt_maxQueueSize options' of
                None \<Rightarrow> False
              | Some m \<Rightarrow> m \<noteq> 0 \<and> m \<le> int (length (queue (gate (gate_run options' evs')))))"
    by (simp add: refused_iff_full queueFull_def configured_maxQueueSize)
  from one acc grow enforced show ?thesis by simp
qed

text \<open>A limiter with one slot and a queue bound of one, after two submissions.\<close>

lemma oneDeep_run:
  "gate_run oneDeep [Submit (3::nat) 5, Submit 7 5] =
     \<lparr> gate = \<lparr> maxConcurrent = 1, minInterval = 0, maxQueueSize = Some 1, queue = [7],
                 activeCount = 1, lastStart = 5 \<rparr>,
       inflight = [3], started_log = [3], accepted_log = [3, 7] \<rparr>"
  by (simp add: gate_run_def gate_init_def newRateLimiter_def oneDeep_def schedule_def
      queueFull_def process_def absorb_def Let_def)

theorem schedule_rejects_when_full_witness:
  "opt_maxQueueSize oneDeep = Some 1 \<and> (1::int) \<noteq> 0 \<and>
   queue (gate (gate_run oneDeep [Submit (3::nat) 5, Submit 7 5])) = [7] \<and>
   schedule (gate (gate_run oneDeep [Submit (3::nat) 5, Submit 7 5])) 50 9
     = (gate (gate_run oneDeep [Submit (3::nat) 5, Submit 7 5]), QueueFull) \<and>
   gate_step (gate_run oneDeep [Submit (3::nat) 5, Submit 7 5]) (Submit 9 50)
     = gate_run oneDeep [Submit (3::nat) 5, Submit 7 5]"
proof -
  have h1: "opt_maxQueueSize oneDeep = Some 1" by (simp add: oneDeep_def)
  have h2: "(1::int) \<noteq> 0" by simp
  have q: "queue (gate (gate_run oneDeep [Submit (3::nat) 5, Submit 7 5])) = [7]"
    by (simp add: oneDeep_run)
  have h3: "1 \<le> int (length (queue (gate (gate_run oneDeep [Submit (3::nat) 5, Submit 7 5]))))"
    by (simp add: q)
  from schedule_rejects_when_full [OF h1 h2 h3, of 50 9] h1 q show ?thesis
    by simp
qed

text \<open>
  A limiter configured with \<open>maxQueueSize = 0\<close>: the queue holds \<open>0\<close> entries, and
  \<open>schedule\<close> accepts and starts the operation.
\<close>

theorem schedule_zero_bound_counterexample:
  "opt_maxQueueSize zeroBound = Some 0 \<and>
   int (length (queue (gate (gate_run zeroBound ([] :: nat gate_event list))))) = 0 \<and>
   schedule (gate (gate_run zeroBound ([] :: nat gate_event list))) 10 4
     = (\<lparr> maxConcurrent = 1, minInterval = 0, maxQueueSize = Some 0, queue = [],
           activeCount = 1, lastStart = 10 \<rparr>, Enqueued (Started 4))"
  by (simp add: gate_run_def gate_init_def newRateLimiter_def zeroBound_def schedule_def
      queueFull_def process_def Let_def)

theorem schedule_never_full_without_bound_witness:
  "(opt_maxQueueSize zeroBound = None \<or> opt_maxQueueSize zeroBound = Some 0) \<and>
   snd (schedule (gate (gate_run zeroBound [Submit (1::nat) 10, Submit 2 10])) 10 3) \<noteq> QueueFull \<and>
   accepted_log (gate_run zeroBound (map (\<lambda>fn. Submit fn 10) [1::nat, 2, 3, 4])) = [1, 2, 3, 4] \<and>
   int (length [1::nat, 2, 3, 4])
     \<le> int (length (queue (gate (gate_run zeroBound (map (\<lambda>fn. Submit fn 10) [1::nat, 2, 3, 4])))))
       + maxConcurrent (newRateLimiter zeroBound :: nat RateLimiter) \<and>
   snd (schedule (gate (gate_run oneDeep [Submit (3::nat) 5, Submit 7 5])) 50 9) = QueueFull"
proof -
  have h: "opt_maxQueueSize zeroBound = None \<or> opt_maxQueueSize zeroBound = Some 0"
    by (simp add: zeroBound_def)
  have q: "queue (gate (gate_run oneDeep [Submit (3::nat) 5, Submit 7 5])) = [7]"
    by (simp add: oneDeep_run)
  have o: "opt_maxQueueSize oneDeep = Some 1" by (simp add: oneDeep_def)
  show ?thesis
    using schedule_never_full_without_bound
      [OF h, where evs = "[Submit (1::nat) 10, Submit 2 10]" and now = 10 and fn = 3
        and fns = "[1, 2, 3, 4]" and options' = oneDeep
        and evs' = "[Submit (3::nat) 5, Submit 7 5]" and now' = 50 and fn' = 9] h
    by (simp add: q o)
qed

text \<open>
  A limiter configured with \<open>maxQueueSize = -1\<close>: the bound is below 1 and is enforced, the
  first call on the fresh limiter is refused.
\<close>

theorem negative_bound_counterexample:
  "opt_maxQueueSize negBound = Some (- 1) \<and>
   schedule (gate (gate_run negBound ([] :: nat gate_event list))) 10 4
     = (\<lparr> maxConcurrent = 1, minInterval = 0, maxQueueSize = Some (- 1), queue = [],
           activeCount = 0, lastStart = 0 \<rparr>, QueueFull)"
  by (simp add: gate_run_def gate_init_def newRateLimiter_def negBound_def schedule_def
      queueFull_def)

theorem gate_bounded_fifo_witness:
  "opt_maxConcurrent twoSlots = Some 2 \<and> (1::int) \<le> 2 \<and>
   int (length (inflight (gate_run twoSlots [Submit (2::nat) 5, Submit 3 5, Submit 4 5, Settles 2 9]))) \<le> 2 \<and>
   inflight (gate_run twoSlots [Submit (2::nat) 5, Submit 3 5, Submit 4 5, Settles 2 9]) = [3, 4] \<and>
   started_log (gate_run twoSlots [Submit (2::nat) 5, Submit 3 5, Submit 4 5, Settles 2 9]) = [2, 3, 4]"
proof -
  have h1: "opt_maxConcurrent twoSlots = Some 2" by (simp add: twoSlots_def)
  have h2: "(1::int) \<le> 2" by simp
  have run: "gate_run twoSlots [Submit (2::nat) 5, Submit 3 5, Submit 4 5, Settles 2 9] =
     \<lparr> gate = \<lparr> maxConcurrent = 2, minInterval = 0, maxQueueSize = None, queue = [],
                 activeCount = 2, lastStart = 9 \<rparr>,
       inflight = [3, 4], started_log = [2, 3, 4], accepted_log = [2, 3, 4] \<rparr>"
    by (simp add: gate_run_def gate_init_def newRateLimiter_def twoSlots_def schedule_def
        queueFull_def process_def finish_def absorb_def Let_def)
  show ?thesis
    using gate_bounded_fifo [OF h1 h2, of "[Submit (2::nat) 5, Submit 3 5, Submit 4 5, Settles 2 9]"] h1
    by (simp add: run)
qed

section \<open>Properties of sessions\<close>

text \<open>
  Claim C2, as the code has it. A parsed session expires at the issue time plus
  \<open>max (expiresIn - 60) 60\<close> seconds. The safety margin is therefore exactly 60 seconds
  when the declared lifetime is at least 120 seconds; for a shorter lifetime the stored
  lifetime is held at 60 seconds and the margin is \<open>expiresIn - 60\<close> seconds, which is
  below 60 and negative for lifetimes under 60 seconds.
\<close>

theorem expiry_margin:
  assumes "parseTokens response previous now = Inr t"
  shows "expiresAt t = now + max (declaredLifetime response - 60) 60 * 1000 \<and>
         safetyMargin response now t =
           (if 120 \<le> declaredLifetime response then 60 * 1000
            else (declaredLifetime response - 60) * 1000)"
proof -
  from assms have "expiresAt t = now + max (declaredLifetime response - 60) 60 * 1000"
    by (auto simp: parseTokens_def split: option.splits if_splits)
  then show ?thesis
    by (simp add: safetyMargin_def max_def)
qed

theorem expiry_margin_witness:
  "parseTokens hourLived None 5000
     = Inr \<lparr> accessToken = ''u1'', refreshToken = ''r1'', expiresAt = 3545000, userId = ''unknown'' \<rparr> \<and>
   safetyMargin hourLived 5000
     \<lparr> accessToken = ''u1'', refreshToken = ''r1'', expiresAt = 3545000, userId = ''unknown'' \<rparr> = 60000"
proof -
  have h: "parseTokens hourLived None 5000
     = Inr \<lparr> accessToken = ''u1'', refreshToken = ''r1'', expiresAt = 3545000, userId = ''unknown'' \<rparr>"
    by (simp add: parseTokens_def hourLived_def orElse_def declaredLifetime_def)
  have "declaredLifetime hourLived = 3600"
    by (simp add: hourLived_def orElse_def declaredLifetime_def)
  with expiry_margin [OF h] h show ?thesis by simp
qed

text \<open>
  A response that declares 30 seconds: the session is stored with 60 seconds to live,
  a margin of minus 30 seconds.
\<close>

theorem expiry_margin_counterexample:
  "parseTokens shortLived None 5000
     = Inr \<lparr> accessToken = ''u1'', refreshToken = ''r1'', expiresAt = 65000, userId = ''unknown'' \<rparr> \<and>
   declaredLifetime shortLived = 30 \<and>
   safetyMargin shortLived 5000
     \<lparr> accessToken = ''u1'', refreshToken = ''r1'', expiresAt = 65000, userId = ''unknown'' \<rparr> = - 30000"
  by (simp add: parseTokens_def shortLived_def orElse_def declaredLifetime_def safetyMargin_def)

section \<open>Properties of the request pipeline\<close>

text \<open>A request made without authentication never touches the session.\<close>

lemma sameSession_refl [simp]: "sameSession s s"
  by (simp add: sameSession_def)

lemma sameSession_trans: "sameSession s s1 \<Longrightarrow> sameSession s1 s2 \<Longrightarrow> sameSession s s2"
  by (simp add: sameSession_def)

lemma sameSession_upd [simp]:
  "sameSession s (s'\<lparr>rateLimiter := rl\<rparr>) = sameSession s s'"
  "sameSession s (s'\<lparr>clock := c\<rparr>) = sameSession s s'"
  "sameSession s (s'\<lparr>httpCalls := n\<rparr>) = sameSession s s'"
  "sameSession s (s'\<lparr>trace := tr\<rparr>) = sameSession s s'"
  "sameSession (s\<lparr>rateLimiter := rl\<rparr>) s' = sameSession s s'"
  "sameSession (s\<lparr>clock := c\<rparr>) s' = sameSession s s'"
  "sameSession (s\<lparr>httpCalls := n\<rparr>) s' = sameSession s s'"
  "sameSession (s\<lparr>trace := tr\<rparr>) s' = sameSession s s'"
  by (simp_all add: sameSession_def)

lemma unauthenticated_keeps_session:
  "(\<not> requiresAuth \<longrightarrow> sameSession s (snd (request http config requiresAuth attempt s)))"
  "(\<not> requiresAuth \<longrightarrow> sameSession s (snd (scheduled http config requiresAuth attempt header s)))"
  "(\<not> requiresAuth \<longrightarrow> sameSession s (snd (attemptBody http config requiresAuth attempt header s)))"
  "refresh http toks s = refresh http toks s"
  "ensureAuthenticated http s = ensureAuthenticated http s"
  "handleUnauthorized http s = handleUnauthorized http s"
proof (induction http config requiresAuth attempt s and http config requiresAuth attempt header s
    and http config requiresAuth attempt header s and http toks s and http s and http s
    rule: request_scheduled_attemptBody_refresh_ensureAuthenticated_handleUnauthorized.induct)
  case (1 http config requiresAuth attempt s)
  then show ?case by (simp add: request.simps)
next
  case (2 http config requiresAuth attempt header s)
  show ?case
  proof (cases "enter (rateLimiter s) (clock s) attempt")
    case (fields a rl now)
    show ?thesis
    proof (cases a)
      case Running
      with fields 2 show ?thesis
        by (auto simp: scheduled.simps split: prod.splits outcome.splits)
    qed (use fields in \<open>simp_all add: scheduled.simps\<close>)
  qed
next
  case (3 http config requiresAuth attempt header s)
  show ?case
  proof (cases requiresAuth)
    case True
    then show ?thesis by simp
  next
    case noAuth: False
    obtain elapsed reply where reply: "http config header (httpCalls s) = (elapsed, reply)"
      by (cases "http config header (httpCalls s)")
    let ?s1 = "s\<lparr>httpCalls := Suc (httpCalls s), clock := clock s + elapsed,
                   trace := trace s @ [EvHttp (url config)]\<rparr>"
    show ?thesis
    proof (cases reply)
      case (HttpOk body)
      with reply show ?thesis by (simp add: attemptBody.simps)
    next
      case (HttpFail status message)
      have no401: "\<not> (status = Some 401 \<and> requiresAuth \<and> attempt < 2)"
        using noAuth by simp
      show ?thesis
      proof (cases "(status = Some 429 \<or> 500 \<le> (case status of None \<Rightarrow> 0 | Some c \<Rightarrow> c)) \<and> attempt < 4")
        case True
        let ?s2 = "?s1\<lparr>clock := clock ?s1 + min (1000 * 2 ^ attempt) 15000,
                      trace := trace ?s1 @ [EvDelay (min (1000 * 2 ^ attempt) 15000)]\<rparr>"
        have eq: "attemptBody http config requiresAuth attempt header s
            = request http config requiresAuth (attempt + 1) ?s2"
          by (subst attemptBody.simps) (use reply HttpFail True noAuth in \<open>simp add: Let_def\<close>)
        from 3(3) [OF reply [symmetric] refl HttpFail no401 True refl refl] noAuth
        have "sameSession ?s2 (snd (request http config requiresAuth (attempt + 1) ?s2))"
          by simp
        then have "sameSession s (snd (request http config requiresAuth (attempt + 1) ?s2))"
          by simp
        then show ?thesis
          unfolding eq using noAuth by simp
      next
        case False
        with reply HttpFail noAuth show ?thesis
          by (auto simp: attemptBody.simps Let_def)
      qed
    qed
  qed
qed simp_all

text \<open>
  Entering the limiter in closed form: the interval timer fires at most once, at
  \<open>lastStart + minInterval\<close>.
\<close>

lemma timerLoop_eq:
  "timerLoop rl now =
     (if queue rl = [] \<or> maxConcurrent rl \<le> activeCount rl then (rl, now, None)
      else (rl\<lparr>queue := tl (queue rl), activeCount := activeCount rl + 1,
               lastStart := max now (lastStart rl + minInterval rl)\<rparr>,
            max now (lastStart rl + minInterval rl), Some (hd (queue rl))))"
proof (cases "queue rl = [] \<or> maxConcurrent rl \<le> activeCount rl")
  case True
  then show ?thesis
    by (subst timerLoop.simps) (auto simp: process_def)
next
  case False
  then obtain item rest where q: "queue rl = item # rest"
    by (cases "queue rl") auto
  show ?thesis
  proof (cases "0 < minInterval rl - (now - lastStart rl)")
    case wait: True
    have "timerLoop rl now = timerLoop rl (lastStart rl + minInterval rl)"
      using False q wait by (subst timerLoop.simps) (simp add: process_def Let_def max_def add.commute)
    also have "\<dots> = (rl\<lparr>queue := rest, activeCount := activeCount rl + 1,
                          lastStart := lastStart rl + minInterval rl\<rparr>,
                      lastStart rl + minInterval rl, Some item)"
      using False q by (subst timerLoop.simps) (simp add: process_def Let_def)
    finally show ?thesis
      using False q wait by (simp add: max_def)
  next
    case nowait: False
    then show ?thesis
      using False q by (subst timerLoop.simps) (simp add: process_def Let_def max_def)
  qed
qed

lemma enter_eq:
  "enter rl now fn =
     (if queueFull rl then (Refused, rl, now)
      else if maxConcurrent rl \<le> activeCount rl then (Blocked, rl\<lparr>queue := queue rl @ [fn]\<rparr>, now)
      else (Running,
            rl\<lparr>queue := tl (queue rl @ [fn]), activeCount := activeCount rl + 1,
               lastStart := max now (lastStart rl + minInterval rl)\<rparr>,
            max now (lastStart rl + minInterval rl)))"
proof (cases "queueFull rl")
  case True
  then show ?thesis by (simp add: enter_def schedule_def)
next
  case notFull: False
  show ?thesis
  proof (cases "maxConcurrent rl \<le> activeCount rl")
    case True
    with notFull show ?thesis
      by (simp add: enter_def schedule_def process_def)
  next
    case False
    obtain item rest where q: "queue rl @ [fn] = item # rest"
      by (cases "queue rl @ [fn]") auto
    show ?thesis
    proof (cases "0 < minInterval rl - (now - lastStart rl)")
      case wait: True
      with notFull False q show ?thesis
        by (simp add: enter_def schedule_def process_def Let_def timerLoop_eq max_def)
    next
      case nowait: False
      with notFull False q show ?thesis
        by (simp add: enter_def schedule_def process_def Let_def max_def)
    qed
  qed
qed

text \<open>The closure of an attempt with its local bindings expanded.\<close>

lemma attemptBody_unfold:
  "attemptBody http config requiresAuth attempt header s =
     (case http config header (httpCalls s) of
        (elapsed, HttpOk body) \<Rightarrow>
          (Resolved body,
           s\<lparr>httpCalls := Suc (httpCalls s), clock := clock s + elapsed,
              trace := trace s @ [EvHttp (url config)]\<rparr>)
      | (elapsed, HttpFail status message) \<Rightarrow>
          if status = Some 401 \<and> requiresAuth \<and> attempt < 2 then
            (case handleUnauthorized http
                    (s\<lparr>httpCalls := Suc (httpCalls s), clock := clock s + elapsed,
                       trace := trace s @ [EvHttp (url config)]\<rparr>) of
               (Resolved u, s2) \<Rightarrow> request http config requiresAuth (attempt + 1) s2
             | (Rejected e, s2) \<Rightarrow> (Rejected e, s2)
             | (Pending, s2) \<Rightarrow> (Pending, s2))
          else if (status = Some 429 \<or> 500 \<le> (case status of None \<Rightarrow> 0 | Some c \<Rightarrow> c))
                  \<and> attempt < 4 then
            request http config requiresAuth (attempt + 1)
              (s\<lparr>httpCalls := Suc (httpCalls s),
                 clock := clock s + elapsed + min (1000 * 2 ^ attempt) 15000,
                 trace := trace s @ [EvHttp (url config), EvDelay (min (1000 * 2 ^ attempt) 15000)]\<rparr>)
          else
            (Rejected (AxiosError status message),
             s\<lparr>httpCalls := Suc (httpCalls s), clock := clock s + elapsed,
                trace := trace s @ [EvHttp (url config)]\<rparr>))"
proof -
  obtain elapsed reply where r: "http config header (httpCalls s) = (elapsed, reply)"
    by (cases "http config header (httpCalls s)")
  show ?thesis
    by (subst attemptBody.simps) (cases reply; simp add: r Let_def)
qed

text \<open>The equations that evaluate a run on concrete inputs.\<close>

lemmas run_simps = request.simps scheduled.simps attemptBody_unfold refresh.simps
  ensureAuthenticated.simps handleUnauthorized.simps enter_eq queueFull_def finish_def process_def
  Let_def getTokens_def setTokens_def parseTokens_def orElse_def declaredLifetime_def
  newClient_def newRateLimiter_def

text \<open>
  With a free slot for each attempt that is still to come, an unauthenticated request
  whose every HTTP call fails with 429 or a 5xx status is retried up to attempt 4, with
  the waits \<open>min (1000 * 2 ^ attempt) 15000\<close>, and then rejects with the error of the last
  call; every slot it took is free again.
\<close>

lemma retryTrace_last: "4 \<le> attempt \<Longrightarrow> retryTrace u attempt = [EvHttp u]"
  by (simp add: retryTrace_def)

lemma retryTrace_step:
  "attempt < 4 \<Longrightarrow>
   retryTrace u attempt = EvHttp u # EvDelay (min (1000 * 2 ^ attempt) 15000) # retryTrace u (Suc attempt)"
  by (simp add: retryTrace_def upt_conv_Cons)

lemma finish_idle:
  "queue rl = [] \<Longrightarrow> finish rl now = (rl\<lparr>activeCount := activeCount rl - 1\<rparr>, Idle)"
  by (simp add: finish_def process_def)

lemma retry_with_free_slots:
  assumes fails: "\<And>n. \<exists>elapsed status message.
            http config None n = (elapsed, HttpFail (Some status) message) \<and>
            (status = 429 \<or> 500 \<le> status)"
  shows "attempt \<le> 4 \<Longrightarrow> queue (rateLimiter s) = [] \<Longrightarrow> \<not> queueFull (rateLimiter s) \<Longrightarrow>
         activeCount (rateLimiter s) + int (5 - attempt) \<le> maxConcurrent (rateLimiter s) \<Longrightarrow>
         \<exists>status message s'.
           request http config False attempt s = (Rejected (AxiosError (Some status) message), s') \<and>
           snd (http config None (httpCalls s + (4 - attempt))) = HttpFail (Some status) message \<and>
           trace s' = trace s @ retryTrace (url config) attempt \<and>
           httpCalls s' = httpCalls s + (5 - attempt) \<and>
           queue (rateLimiter s') = [] \<and>
           activeCount (rateLimiter s') = activeCount (rateLimiter s) \<and>
           maxConcurrent (rateLimiter s') = maxConcurrent (rateLimiter s) \<and>
           maxQueueSize (rateLimiter s') = maxQueueSize (rateLimiter s)"
proof (induction "4 - attempt" arbitrary: attempt s)
  case 0
  then have a4: "attempt = 4" by simp
  obtain elapsed status message where
    reply: "http config None (httpCalls s) = (elapsed, HttpFail (Some status) message)"
    using fails [of "httpCalls s"] by blast
  from 0 a4 have slot: "\<not> maxConcurrent (rateLimiter s) \<le> activeCount (rateLimiter s)"
    by simp
  show ?case
    using 0(3,4) slot reply a4
    by (simp add: request.simps scheduled.simps enter_eq attemptBody_unfold finish_idle
        retryTrace_last)
next
  case (Suc n)
  then have lt: "attempt < 4" and n: "n = 4 - Suc attempt" by simp_all
  obtain elapsed status message where
    reply: "http config None (httpCalls s) = (elapsed, HttpFail (Some status) message)"
    and retryable: "status = 429 \<or> 500 \<le> status"
    using fails [of "httpCalls s"] by blast
  let ?rl = "(rateLimiter s)\<lparr>queue := [], activeCount := activeCount (rateLimiter s) + 1,
              lastStart := max (clock s) (lastStart (rateLimiter s) + minInterval (rateLimiter s))\<rparr>"
  let ?now = "max (clock s) (lastStart (rateLimiter s) + minInterval (rateLimiter s))"
  let ?s2 = "s\<lparr>rateLimiter := ?rl, httpCalls := Suc (httpCalls s),
               clock := ?now + elapsed + min (1000 * 2 ^ attempt) 15000,
               trace := trace s @ [EvHttp (url config), EvDelay (min (1000 * 2 ^ attempt) 15000)]\<rparr>"
  from Suc.prems lt have slot: "\<not> maxConcurrent (rateLimiter s) \<le> activeCount (rateLimiter s)"
    by simp
  have nf: "\<not> queueFull (rateLimiter ?s2)"
    using Suc.prems(2,3) by (auto simp: queueFull_def split: option.splits)
  have room: "activeCount (rateLimiter ?s2) + int (5 - Suc attempt) \<le> maxConcurrent (rateLimiter ?s2)"
    using Suc.prems(4) lt by simp
  from Suc.hyps(1) [OF n _ _ nf room] lt
  obtain status' message' s3 where
    inner: "request http config False (Suc attempt) ?s2 = (Rejected (AxiosError (Some status') message'), s3)"
    and last: "snd (http config None (httpCalls ?s2 + (4 - Suc attempt))) = HttpFail (Some status') message'"
    and tr: "trace s3 = trace ?s2 @ retryTrace (url config) (Suc attempt)"
    and calls: "httpCalls s3 = httpCalls ?s2 + (5 - Suc attempt)"
    and q: "queue (rateLimiter s3) = []"
    and ac: "activeCount (rateLimiter s3) = activeCount (rateLimiter ?s2)"
    and mc: "maxConcurrent (rateLimiter s3) = maxConcurrent (rateLimiter ?s2)"
    and mq: "maxQueueSize (rateLimiter s3) = maxQueueSize (rateLimiter ?s2)"
    by auto
  have step: "request http config False attempt s =
      (case request http config False (Suc attempt) ?s2 of
         (Resolved body, s') \<Rightarrow>
           (Resolved body, s'\<lparr>rateLimiter := fst (finish (rateLimiter s') (clock s'))\<rparr>)
       | (Rejected e, s') \<Rightarrow>
           (Rejected e, s'\<lparr>rateLimiter := fst (finish (rateLimiter s') (clock s'))\<rparr>)
       | (Pending, s') \<Rightarrow> (Pending, s'))"
    apply (subst request.simps)
    apply simp
    apply (subst scheduled.simps)
    apply (simp add: enter_eq Suc.prems(2,3) slot)
    apply (subst attemptBody_unfold)
    apply (simp add: reply retryable lt)
    done
  have unfold: "request http config False attempt s =
      (Rejected (AxiosError (Some status') message'),
       s3\<lparr>rateLimiter := fst (finish (rateLimiter s3) (clock s3))\<rparr>)"
    by (simp only: step inner prod.case outcome.case)
  have idx: "httpCalls ?s2 + (4 - Suc attempt) = httpCalls s + (4 - attempt)"
    and cnt: "httpCalls ?s2 + (5 - Suc attempt) = httpCalls s + (5 - attempt)"
    using lt by simp_all
  from last have last': "snd (http config None (httpCalls s + (4 - attempt))) = HttpFail (Some status') message'"
    by (simp only: idx)
  from calls have calls': "httpCalls s3 = httpCalls s + (5 - attempt)"
    by (simp only: cnt)
  show ?case
    using unfold last' tr calls' q ac mc mq lt
    by (simp add: finish_idle retryTrace_step)
qed

text \<open>
  Claim C3 says that a request whose every HTTP call fails with 429 is retried four times,
  after waits of 1000, 2000, 4000 and 8000 ms, and that the fifth failure is surfaced.
  On the limiter of the application (\<open>maxConcurrent = 2\<close>) the code does not get that far.
  Each retry is scheduled from inside the closure of the attempt before it, which keeps its
  slot until the retry settles. After the second failure and the wait of 2000 ms the third
  attempt is queued behind two slots that only it could free: the promise stays pending,
  two waits have happened and no error is ever surfaced.
\<close>

theorem backoff_retry_blocks_in_limiter:
  "request always429 loginRequest False 0 (newClient appLimiterOptions None 1000000) =
   (Pending,
    \<lparr> tokens = None, tokensLoaded = False, stored = None,
      rateLimiter = \<lparr> maxConcurrent = 2, minInterval = 400, maxQueueSize = None, queue = [2],
                      activeCount = 2, lastStart = 1001100 \<rparr>,
      clock = 1003200, httpCalls = 2,
      trace = [EvHttp ''/auth/login'', EvDelay 1000, EvHttp ''/auth/login'', EvDelay 2000] \<rparr>)"
  by (simp add: run_simps appLimiterOptions_def always429_def loginRequest_def)

text \<open>With five slots the same request behaves as the claim describes.\<close>

lemma backoff_retry_with_five_slots:
  "\<exists>s'. request always429 loginRequest False 0 (newClient fiveSlots None 1000000)
           = (Rejected (AxiosError (Some 429) ''Too Many Requests''), s') \<and>
         trace s' = [EvHttp ''/auth/login'', EvDelay 1000, EvHttp ''/auth/login'', EvDelay 2000,
                     EvHttp ''/auth/login'', EvDelay 4000, EvHttp ''/auth/login'', EvDelay 8000,
                     EvHttp ''/auth/login''] \<and>
         httpCalls s' = 5"
proof -
  have fails: "\<And>n. \<exists>elapsed status message.
      always429 loginRequest None n = (elapsed, HttpFail (Some status) message) \<and>
      (status = 429 \<or> 500 \<le> status)"
    by (simp add: always429_def)
  have tr: "retryTrace (url loginRequest) 0 =
      [EvHttp ''/auth/login'', EvDelay 1000, EvHttp ''/auth/login'', EvDelay 2000,
       EvHttp ''/auth/login'', EvDelay 4000, EvHttp ''/auth/login'', EvDelay 8000,
       EvHttp ''/auth/login'']"
    by (simp add: retryTrace_def loginRequest_def upt_rec)
  from retry_with_free_slots [of always429 loginRequest 0 "newClient fiveSlots None 1000000", OF fails]
  show ?thesis
    by (auto simp: tr always429_def newClient_def newRateLimiter_def fiveSlots_def queueFull_def)
qed

text \<open>
  Claim C4 says that a 401 below attempt 2 forces a refresh and a retry with the next
  attempt number. On the limiter of the application the first 401 is handled so, but the
  second (attempt 1) is not: the forced refresh is itself a call of \<open>request\<close>, both slots
  are held by attempts 0 and 1, and the refresh stays queued for ever. No second refresh
  is sent, attempt 2 never starts and nothing is surfaced.
\<close>

theorem second_unauthorized_blocks_in_limiter:
  "request rejects401 statusRequest True 0 (newClient appLimiterOptions (Some session0) 1000000) =
   (Pending,
    \<lparr> tokens = Some \<lparr> accessToken = ''a1'', refreshToken = ''r0'', expiresAt = 4540500,
                      userId = ''u0'' \<rparr>,
      tokensLoaded = True,
      stored = Some \<lparr> accessToken = ''a1'', refreshToken = ''r0'', expiresAt = 4540500,
                      userId = ''u0'' \<rparr>,
      rateLimiter = \<lparr> maxConcurrent = 2, minInterval = 400, maxQueueSize = None, queue = [0],
                      activeCount = 2, lastStart = 1000800 \<rparr>,
      clock = 1000900, httpCalls = 3,
      trace = [EvHttp ''/deviceStatus/abc123'', EvHttp ''/auth/token'',
               EvHttp ''/deviceStatus/abc123''] \<rparr>)"
  by (simp add: run_simps appLimiterOptions_def rejects401_def statusRequest_def session0_def
      freshTokens_def)

text \<open>With three slots the second refresh runs and the third 401 is surfaced.\<close>

lemma unauthorized_retry_with_three_slots:
  "request rejects401 statusRequest True 0 (newClient threeSlots (Some session0) 1000000) =
   (Rejected (AxiosError (Some 401) ''Unauthorized''),
    \<lparr> tokens = Some \<lparr> accessToken = ''a1'', refreshToken = ''r0'', expiresAt = 4541300,
                      userId = ''u0'' \<rparr>,
      tokensLoaded = True,
      stored = Some \<lparr> accessToken = ''a1'', refreshToken = ''r0'', expiresAt = 4541300,
                      userId = ''u0'' \<rparr>,
      rateLimiter = \<lparr> maxConcurrent = 3, minInterval = 400, maxQueueSize = None, queue = [],
                      activeCount = 0, lastStart = 1001600 \<rparr>,
      clock = 1001700, httpCalls = 5,
      trace = [EvHttp ''/deviceStatus/abc123'', EvHttp ''/auth/token'',
               EvHttp ''/deviceStatus/abc123'', EvHttp ''/auth/token'',
               EvHttp ''/deviceStatus/abc123''] \<rparr>)"
  by (simp add: run_simps threeSlots_def rejects401_def statusRequest_def session0_def
      freshTokens_def)




text \<open>
  Claim C10, as the code has it. When the refresh request has been answered: if the answer
  has no access token (\<open>uToken ?? accessToken\<close> absent or empty) or no refresh token is
  available (the answer's is empty, or it is absent and the previous one is empty),
  \<open>refresh\<close> throws and the cached and the stored session stay as they were. Otherwise
  the new session is cached and stored; it keeps the previous refresh token when the answer
  has none, and the previous user id when the answer has neither \<open>userId\<close> nor
  \<open>user.id\<close>.
\<close>

theorem refresh_retains_or_throws:
  assumes "request http \<lparr>url = ''/auth/token'', httpMethod = ''POST'',
                          data = RefreshData (refreshToken toks)\<rparr> False 0 s
             = (Resolved response, s1)"
  shows "if orElse (uToken response) (resp_accessToken response) = None
            \<or> orElse (uToken response) (resp_accessToken response) = Some []
            \<or> orElse (resp_refreshToken response) (Some (refreshToken toks)) = Some []
         then refresh http toks s = (Rejected (Error ''Comfort Cloud authentication failed''), s1)
              \<and> tokens s1 = tokens s \<and> stored s1 = stored s
         else \<exists>t. refresh http toks s
                    = (Resolved t, s1\<lparr>tokens := Some t, tokensLoaded := True, stored := Some t\<rparr>)
              \<and> Some (accessToken t) = orElse (uToken response) (resp_accessToken response)
              \<and> refreshToken t
                    = (case resp_refreshToken response of None \<Rightarrow> refreshToken toks | Some r \<Rightarrow> r)
              \<and> userId t
                    = (case orElse (resp_userId response) (resp_user_id response) of
                         None \<Rightarrow> userId toks | Some u \<Rightarrow> u)"
proof -
  have keep: "sameSession s s1"
    using unauthenticated_keeps_session(1)
      [of False s http "\<lparr>url = ''/auth/token'', httpMethod = ''POST'',
                          data = RefreshData (refreshToken toks)\<rparr>" 0] assms
    by simp
  have unfold: "refresh http toks s =
      (case parseTokens response (Some toks) (clock s1) of
         Inl e \<Rightarrow> (Rejected e, s1)
       | Inr nextTokens \<Rightarrow> (Resolved nextTokens, setTokens (Some nextTokens) s1))"
    using assms by (subst refresh.simps) simp
  show ?thesis
    using keep
    by (auto simp: unfold parseTokens_def orElse_def setTokens_def sameSession_def
        split: option.splits)
qed

text \<open>The refresh request against an upstream that answers with a fixed body.\<close>

lemma refresh_request_answered:
  "request (answers response) \<lparr>url = ''/auth/token'', httpMethod = ''POST'',
        data = RefreshData (refreshToken session0)\<rparr> False 0
        (newClient appLimiterOptions (Some session0) 1000000)
   = (Resolved response,
      \<lparr> tokens = None, tokensLoaded = False, stored = Some session0,
        rateLimiter = \<lparr> maxConcurrent = 2, minInterval = 400, maxQueueSize = None, queue = [],
                        activeCount = 0, lastStart = 1000000 \<rparr>,
        clock = 1000100, httpCalls = 1, trace = [EvHttp ''/auth/token''] \<rparr>)"
  by (simp add: run_simps appLimiterOptions_def answers_def)

theorem refresh_retains_or_throws_witness:
  "fst (refresh (answers freshTokens) session0 (newClient appLimiterOptions (Some session0) 1000000))
     = Resolved \<lparr> accessToken = ''a1'', refreshToken = ''r0'', expiresAt = 4540100,
                    userId = ''u0'' \<rparr> \<and>
   stored (snd (refresh (answers freshTokens) session0
                  (newClient appLimiterOptions (Some session0) 1000000)))
     = Some \<lparr> accessToken = ''a1'', refreshToken = ''r0'', expiresAt = 4540100,
                userId = ''u0'' \<rparr> \<and>
   fst (refresh (answers noTokens) session0 (newClient appLimiterOptions (Some session0) 1000000))
     = Rejected (Error ''Comfort Cloud authentication failed'') \<and>
   stored (snd (refresh (answers noTokens) session0
                  (newClient appLimiterOptions (Some session0) 1000000)))
     = Some session0"
proof -
  let ?s = "newClient appLimiterOptions (Some session0) 1000000"
  have a: "\<exists>t. refresh (answers freshTokens) session0 ?s
               = (Resolved t,
                  \<lparr> tokens = Some t, tokensLoaded = True, stored = Some t,
                    rateLimiter = \<lparr> maxConcurrent = 2, minInterval = 400, maxQueueSize = None,
                                    queue = [], activeCount = 0, lastStart = 1000000 \<rparr>,
                    clock = 1000100, httpCalls = 1, trace = [EvHttp ''/auth/token''] \<rparr>)
             \<and> Some (accessToken t) = Some ''a1'' \<and> refreshToken t = ''r0'' \<and> userId t = ''u0''"
    using refresh_retains_or_throws [OF refresh_request_answered [of freshTokens]]
    by (simp add: freshTokens_def orElse_def session0_def)
  have b: "refresh (answers noTokens) session0 ?s
      = (Rejected (Error ''Comfort Cloud authentication failed''),
         \<lparr> tokens = None, tokensLoaded = False, stored = Some session0,
           rateLimiter = \<lparr> maxConcurrent = 2, minInterval = 400, maxQueueSize = None,
                           queue = [], activeCount = 0, lastStart = 1000000 \<rparr>,
           clock = 1000100, httpCalls = 1, trace = [EvHttp ''/auth/token''] \<rparr>)"
    using refresh_retains_or_throws [OF refresh_request_answered [of noTokens]]
    by (simp add: noTokens_def orElse_def)
  have c: "refresh (answers freshTokens) session0 ?s
      = (Resolved \<lparr> accessToken = ''a1'', refreshToken = ''r0'', expiresAt = 4540100,
                     userId = ''u0'' \<rparr>,
         setTokens (Some \<lparr> accessToken = ''a1'', refreshToken = ''r0'', expiresAt = 4540100,
                            userId = ''u0'' \<rparr>)
           \<lparr> tokens = None, tokensLoaded = False, stored = Some session0,
             rateLimiter = \<lparr> maxConcurrent = 2, minInterval = 400, maxQueueSize = None,
                             queue = [], activeCount = 0, lastStart = 1000000 \<rparr>,
             clock = 1000100, httpCalls = 1, trace = [EvHttp ''/auth/token''] \<rparr>)"
    by (simp add: run_simps appLimiterOptions_def answers_def freshTokens_def session0_def)
  from a b c show ?thesis by (simp add: setTokens_def)
qed

text \<open>
  An answer without the \<open>userId\<close> field but with \<open>user.id\<close>: the previous user id is
  not kept.
\<close>

theorem refresh_userId_counterexample:
  "resp_userId nestedUser = None \<and> userId session0 = ''u0'' \<and>
   fst (refresh (answers nestedUser) session0 (newClient appLimiterOptions (Some session0) 1000000))
     = Resolved \<lparr> accessToken = ''a1'', refreshToken = ''r0'', expiresAt = 4540100,
                    userId = ''u2'' \<rparr>"
  by (simp add: run_simps appLimiterOptions_def answers_def nestedUser_def session0_def)

section \<open>Properties of write payloads\<close>

text \<open>
  Claim C1, as the code has it. The payload of \<open>writeState\<close> has a key exactly for each
  field the patch specifies. The cached state contributes nothing but the temperature
  bounds the patch leaves out, which clamp the target temperature when the patch sets one:
  the payload is the one built, without any cache, from the patch with those two bounds
  filled in.
\<close>

theorem payload_takes_only_bounds_from_cache:
  "data (writeStateRequest stateCache deviceId patch) =
     ControlData deviceId
       (createWritePayload
          (patch\<lparr> p_minTemperature :=
                     orElse (p_minTemperature patch) (Option.bind (stateCache deviceId) minTemperature),
                   p_maxTemperature :=
                     orElse (p_maxTemperature patch) (Option.bind (stateCache deviceId) maxTemperature) \<rparr>)
          None) \<and>
   (map_of (createWritePayload patch (stateCache deviceId)) ''operate'' = None) = (p_on patch = None) \<and>
   (map_of (createWritePayload patch (stateCache deviceId)) ''operationMode'' = None)
      = (p_thermostatMode patch = None) \<and>
   (map_of (createWritePayload patch (stateCache deviceId)) ''fanSpeed'' = None)
      = (p_fanSpeed patch = None) \<and>
   (map_of (createWritePayload patch (stateCache deviceId)) ''airSwingUD'' = None)
      = (p_swingMode patch = None) \<and>
   (map_of (createWritePayload patch (stateCache deviceId)) ''airSwingLR'' = None)
      = (p_swingMode patch = None) \<and>
   map_of (createWritePayload patch (stateCache deviceId)) ''targetTemp'' =
     map_option
       (\<lambda>t. clamp t
          (orElse (p_minTemperature patch) (Option.bind (stateCache deviceId) minTemperature))
          (orElse (p_maxTemperature patch) (Option.bind (stateCache deviceId) maxTemperature)))
       (p_targetTemperature patch)"
proof -
  have swing: "map_of (swingPayload w) ''airSwingUD'' \<noteq> None \<and>
               map_of (swingPayload w) ''airSwingLR'' \<noteq> None \<and>
               map_of (swingPayload w) ''operate'' = None \<and>
               map_of (swingPayload w) ''operationMode'' = None \<and>
               map_of (swingPayload w) ''fanSpeed'' = None \<and>
               map_of (swingPayload w) ''targetTemp'' = None" for w
    by (cases w) simp_all
  have one: "data (writeStateRequest stateCache deviceId patch) =
     ControlData deviceId
       (createWritePayload
          (patch\<lparr> p_minTemperature :=
                     orElse (p_minTemperature patch) (Option.bind (stateCache deviceId) minTemperature),
                   p_maxTemperature :=
                     orElse (p_maxTemperature patch) (Option.bind (stateCache deviceId) maxTemperature) \<rparr>)
          None)"
    by (simp add: writeStateRequest_def createWritePayload_def orElse_def split: option.splits)
  have keys: "(map_of (createWritePayload patch (stateCache deviceId)) ''operate'' = None) = (p_on patch = None)"
    "(map_of (createWritePayload patch (stateCache deviceId)) ''operationMode'' = None)
      = (p_thermostatMode patch = None)"
    "(map_of (createWritePayload patch (stateCache deviceId)) ''fanSpeed'' = None)
      = (p_fanSpeed patch = None)"
    using swing by (auto simp: createWritePayload_def map_add_def split: option.splits)
  have sw: "(map_of (createWritePayload patch (stateCache deviceId)) ''airSwingUD'' = None)
      = (p_swingMode patch = None)"
    "(map_of (createWritePayload patch (stateCache deviceId)) ''airSwingLR'' = None)
      = (p_swingMode patch = None)"
    using swing by (auto simp: createWritePayload_def map_add_def split: option.splits)
  have tt: "map_of (createWritePayload patch (stateCache deviceId)) ''targetTemp'' =
     map_option
       (\<lambda>t. clamp t
          (orElse (p_minTemperature patch) (Option.bind (stateCache deviceId) minTemperature))
          (orElse (p_maxTemperature patch) (Option.bind (stateCache deviceId) maxTemperature)))
       (p_targetTemperature patch)"
    using swing by (auto simp: createWritePayload_def map_add_def split: option.splits)
  from one keys sw tt show ?thesis by simp
qed

text \<open>
  A patch that only switches the device on, with a cached state in heating mode: the
  payload is \<open>operate = 1\<close> alone, not the payload of the patch filled from the cache.
\<close>

theorem payload_filled_from_cache_counterexample:
  "data (writeStateRequest cache0 ''abc123'' powerPatch) = ControlData ''abc123'' [(''operate'', 1)] \<and>
   createWritePayload (filledFromCache powerPatch cachedState) (Some cachedState) =
     [(''operate'', 1), (''operationMode'', 1), (''targetTemp'', 22), (''fanSpeed'', 1),
      (''airSwingUD'', 0), (''airSwingLR'', 0)]"
  by (simp add: writeStateRequest_def createWritePayload_def cache0_def cachedState_def
      powerPatch_def emptyPatch_def filledFromCache_def orElse_def clamp_def)

text \<open>A patch that only sets 40 degrees is clamped to the cached maximum.\<close>

lemma bounds_preserved_example:
  "data (writeStateRequest cache0 ''abc123'' hotPatch) = ControlData ''abc123'' [(''targetTemp'', 30)]"
  by (simp add: writeStateRequest_def createWritePayload_def cache0_def cachedState_def
      hotPatch_def emptyPatch_def orElse_def clamp_def)

section \<open>Properties of the poll scheduler\<close>

text \<open>The equations that evaluate a scheduler run on concrete inputs.\<close>

lemmas ps_simps = newPollScheduler_def ps_register_def ps_updateInterval_def ps_start_def
  ps_stop_def ps_unregister_def ps_schedule_def ps_clearTimeout_def executeBegin_def
  executeEnd_def calculateDelay_def updateObject_def objectAt_def immediateOrTrue_def
  scheduleInitially_def Let_def PollTask.extend_def

lemma clearTimeout_keeps [simp]:
  "running (ps_clearTimeout r s) = running s"
  "runLog (ps_clearTimeout r s) = runLog s"
  "length (objects (ps_clearTimeout r s)) = length (objects s)"
  "tasks (ps_clearTimeout r s) = tasks s"
  by (simp_all add: ps_clearTimeout_def updateObject_def split: option.splits)

lemma clearTimeout_clears:
  "r < length (objects s) \<Longrightarrow> Option.bind (objectAt (ps_clearTimeout r s) r) timeout = None"
  by (auto simp: ps_clearTimeout_def updateObject_def objectAt_def split: option.splits)

lemma clearTimeout_keeps_cleared:
  "Option.bind (objectAt s r) timeout = None \<Longrightarrow>
   Option.bind (objectAt (ps_clearTimeout r' s) r) timeout = None"
  by (cases "r = r'")
    (auto simp: ps_clearTimeout_def updateObject_def objectAt_def split: option.splits if_splits)

lemma clearTimeout_timers:
  "set (pendingTimers (ps_clearTimeout r s)) \<subseteq> set (pendingTimers s)"
  by (auto simp: ps_clearTimeout_def updateObject_def split: option.splits)

lemma clearAll_keeps [simp]:
  "running (foldl (\<lambda>s' r. ps_clearTimeout r s') s rs) = running s"
  "runLog (foldl (\<lambda>s' r. ps_clearTimeout r s') s rs) = runLog s"
  "length (objects (foldl (\<lambda>s' r. ps_clearTimeout r s') s rs)) = length (objects s)"
  by (induction rs arbitrary: s) simp_all

lemma clearAll_clears:
  "r \<in> set rs \<Longrightarrow> r < length (objects s) \<Longrightarrow>
   Option.bind (objectAt (foldl (\<lambda>s' r. ps_clearTimeout r s') s rs) r) timeout = None"
proof (induction rs rule: rev_induct)
  case Nil
  then show ?case by simp
next
  case (snoc x xs)
  show ?case
  proof (cases "r = x")
    case True
    with snoc.prems show ?thesis by (simp add: clearTimeout_clears)
  next
    case False
    with snoc have "Option.bind (objectAt (foldl (\<lambda>s' r. ps_clearTimeout r s') s xs) r) timeout = None"
      by simp
    then show ?thesis by (simp add: clearTimeout_keeps_cleared)
  qed
qed

text \<open>
  After \<open>stop()\<close> the handle of every registered task is cleared, and as long as only time
  passes and running actions end, no action is started and no timer is armed.
\<close>

lemma stop_not_running: "\<not> running (ps_stop s)"
  by (simp add: ps_stop_def)

lemma stop_clears_registered_handles:
  assumes "running s" and "(ident, r) \<in> set (tasks s)" and "r < length (objects s)"
  shows "Option.bind (objectAt (ps_stop s) r) timeout = None"
proof -
  from assms(2) have "r \<in> set (map snd (tasks s))" by force
  with assms(1,3) show ?thesis
    by (simp add: ps_stop_def clearAll_clears)
qed

lemma passive_step_quiet:
  assumes "\<not> running s" and "isPassive ev"
  shows "\<not> running (ps_step rng s ev) \<and> runLog (ps_step rng s ev) = runLog s \<and>
         set (pendingTimers (ps_step rng s ev)) \<subseteq> set (pendingTimers s)"
proof (cases ev)
  case (TimerDue h now)
  with assms(1) show ?thesis
    by (auto simp: executeBegin_def split: option.splits)
next
  case (RunSettles r)
  with assms(1) show ?thesis
    by (auto simp: executeEnd_def Let_def)
qed (use assms(2) in simp_all)

lemma stopped_scheduler_quiet:
  assumes "\<not> running s" and "list_all isPassive evs"
  shows "\<not> running (foldl (ps_step rng) s evs) \<and>
         runLog (foldl (ps_step rng) s evs) = runLog s \<and>
         set (pendingTimers (foldl (ps_step rng) s evs)) \<subseteq> set (pendingTimers s)"
  using assms
proof (induction evs arbitrary: s)
  case Nil
  then show ?case by simp
next
  case (Cons ev evs)
  from Cons.prems have step: "\<not> running (ps_step rng s ev)"
    "runLog (ps_step rng s ev) = runLog s"
    "set (pendingTimers (ps_step rng s ev)) \<subseteq> set (pendingTimers s)"
    using passive_step_quiet [of s ev rng] by auto
  from Cons.prems have "list_all isPassive evs" by simp
  from Cons.IH [OF step(1) this] step show ?case
    by auto
qed

lemma after_stop_no_more_runs:
  assumes "list_all isPassive evs"
  shows "runLog (foldl (ps_step rng) (ps_stop s) evs) = runLog s \<and>
         \<not> running (foldl (ps_step rng) (ps_stop s) evs)"
proof -
  have "runLog (ps_stop s) = runLog s"
    by (simp add: ps_stop_def)
  with stopped_scheduler_quiet [OF stop_not_running assms, of rng s] show ?thesis
    by simp
qed

text \<open>
  Claim C8 says that \<open>stop()\<close> cancels every pending timer. \<open>stop\<close> clears the handle
  stored in each registered task, but a task can have a second timer whose handle was
  overwritten: \<open>updateInterval\<close> during a running action arms timer 1, and the action's
  \<open>finally\<close> arms timer 2 and stores its handle over the first. \<open>stop\<close> then cancels
  timer 2 only, and timer 1 is still pending. (It starts nothing when it fires, by
  \<open>after_stop_no_more_runs\<close>.)
\<close>

theorem stop_leaves_timer_pending:
  "foldl (ps_step noJitter) (newPollScheduler None) leakingRun =
     \<lparr> tasks = [(''essential'', 0)],
       objects = [\<lparr> task_id = ''essential'', interval = 2000, immediate = Some True,
                    timeout = None, lastRun = Some 5 \<rparr>],
       jitter = 0, running = False, pendingTimers = [(1, 0, 2000)], nextHandle = 3,
       executing = [], runLog = [''essential''], draws = 0 \<rparr>"
  by (simp add: ps_simps leakingRun_def essentialTask_def noJitter_def)

lemma leaked_timer_fires_idle:
  "runLog (foldl (ps_step noJitter) (newPollScheduler None) (leakingRun @ [TimerDue 1 3000]))
     = [''essential''] \<and>
   pendingTimers (foldl (ps_step noJitter) (newPollScheduler None) (leakingRun @ [TimerDue 1 3000]))
     = []"
  by (simp add: ps_simps leakingRun_def essentialTask_def noJitter_def)

end
